theory Spec2Isabelle
  imports Complex_Main
begin

section \<open>Python values and exceptions\<close>

text \<open>
  The exceptions that the modelled part of \<^verbatim>\<open>photo_grid.py\<close> can raise.
  \<^verbatim>\<open>CalledProcessError\<close> is what \<^verbatim>\<open>subprocess.run(..., check=True)\<close> raises on a
  non-zero exit status; it carries the command, the status and the captured stderr.
\<close>

datatype py_error =
    IndexError
  | KeyError
  | ValueError
  | CalledProcessError "string list" int string

definition bind_err :: "py_error + 'a \<Rightarrow> ('a \<Rightarrow> py_error + 'b) \<Rightarrow> py_error + 'b" where
  "bind_err r f = (case r of Inl e \<Rightarrow> Inl e | Inr v \<Rightarrow> f v)"

text \<open>\<^verbatim>\<open>xs[i]\<close> for an index that is never negative (a GTK \<^verbatim>\<open>guint\<close>).\<close>

definition py_index :: "'a list \<Rightarrow> nat \<Rightarrow> py_error + 'a" where
  "py_index xs i = (if i < length xs then Inr (xs ! i) else Inl IndexError)"

text \<open>\<^verbatim>\<open>d[k]\<close> on a dict, kept as an association list in insertion order.\<close>

definition py_getitem :: "('k \<times> 'v) list \<Rightarrow> 'k \<Rightarrow> py_error + 'v" where
  "py_getitem d k = (case map_of d k of None \<Rightarrow> Inl KeyError | Some v \<Rightarrow> Inr v)"

subsection \<open>Numbers\<close>

text \<open>
  A Python \<^verbatim>\<open>float\<close> is an IEEE-754 binary64 value; it is represented by the rational
  number it denotes. \<open>to_double\<close> rounds a rational to the nearest binary64 value, ties to
  even, for magnitudes in the normal range (no overflow, no subnormals): every number of
  this program lies between 4 and 10000.
\<close>

function bit_length :: "int \<Rightarrow> int" where
  "bit_length n = (if n \<le> 0 then 0 else 1 + bit_length (n div 2))"
  by pat_completeness auto
termination
  by (relation "measure nat") auto

declare bit_length.simps [simp del]

definition pow2 :: "int \<Rightarrow> rat" where
  "pow2 e = (if 0 \<le> e then of_int (2 ^ nat e) else 1 / of_int (2 ^ nat (- e)))"

text \<open>The quotient \<open>p / q\<close> multiplied by \<open>2 ^ k\<close>, again as a quotient of two integers.\<close>

definition scaled :: "int \<Rightarrow> int \<Rightarrow> int \<Rightarrow> int \<times> int" where
  "scaled p q k = (if 0 \<le> k then (p * 2 ^ nat k, q) else (p, q * 2 ^ nat (- k)))"

text \<open>The binary exponent \<open>\<lfloor>log\<^sub>2 (p / q)\<rfloor>\<close> of a positive quotient.\<close>

definition ilog2 :: "int \<Rightarrow> int \<Rightarrow> int" where
  "ilog2 p q =
     (let e0 = bit_length p - bit_length q; (a, b) = scaled p q (- e0)
      in if b \<le> a then e0 else e0 - 1)"

text \<open>The quotient \<open>a / b\<close> (\<open>b > 0\<close>) rounded to the nearest integer, ties to even.\<close>

definition round_half_even_div :: "int \<Rightarrow> int \<Rightarrow> int" where
  "round_half_even_div a b =
     (let f = a div b; r = a mod b
      in if 2 * r < b then f
         else if b < 2 * r then f + 1
         else if even f then f else f + 1)"

definition to_double :: "rat \<Rightarrow> rat" where
  "to_double x =
     (if x = 0 then 0
      else (let (p, q) = quotient_of \<bar>x\<bar>;
                e = ilog2 p q;
                (a, b) = scaled p q (52 - e);
                m = round_half_even_div a b
            in sgn x * (of_int m * pow2 (e - 52))))"

text \<open>A number is an \<^verbatim>\<open>int\<close> (unbounded) or a \<^verbatim>\<open>float\<close>.\<close>

datatype pynum = PyInt int | PyFloat rat

text \<open>A decimal literal such as \<^verbatim>\<open>5.83\<close> denotes the binary64 value nearest to it.\<close>

definition float_literal :: "rat \<Rightarrow> pynum" where
  "float_literal x = PyFloat (to_double x)"

text \<open>\<^verbatim>\<open>float(x)\<close>, the conversion applied to an \<^verbatim>\<open>int\<close> operand of a mixed product; it is
  exact on integers of at most 53 bits.\<close>

fun py_float :: "pynum \<Rightarrow> rat" where
  "py_float (PyInt i) = (if \<bar>i\<bar> \<le> 2 ^ 53 then of_int i else to_double (of_int i))"
| "py_float (PyFloat x) = x"

text \<open>\<^verbatim>\<open>a * b\<close>: exact on two ints, otherwise the rounded binary64 product.\<close>

fun py_mul :: "pynum \<Rightarrow> pynum \<Rightarrow> pynum" where
  "py_mul (PyInt a) (PyInt b) = PyInt (a * b)"
| "py_mul a b = PyFloat (to_double (py_float a * py_float b))"

text \<open>\<^verbatim>\<open>int(x)\<close>: the identity on an int, truncation towards zero on a float.\<close>

fun py_int :: "pynum \<Rightarrow> int" where
  "py_int (PyInt i) = i"
| "py_int (PyFloat x) = (if 0 \<le> x then \<lfloor>x\<rfloor> else \<lceil>x\<rceil>)"

subsection \<open>Strings\<close>

text \<open>
  \<^verbatim>\<open>str.strip()\<close> removes leading and trailing whitespace. One \<open>char\<close> of the model
  stands for one character of the Python string; the whitespace characters are those of
  \<^verbatim>\<open>str.isspace\<close> below U+0100.
\<close>

definition py_isspace :: "char \<Rightarrow> bool" where
  "py_isspace c \<longleftrightarrow> c \<in> set [CHR 0x09, CHR 0x0A, CHR 0x0B, CHR 0x0C, CHR 0x0D,
     CHR 0x1C, CHR 0x1D, CHR 0x1E, CHR 0x1F, CHR 0x20, CHR 0x85, CHR 0xA0]"

definition py_strip :: "string \<Rightarrow> string" where
  "py_strip s = rev (dropWhile py_isspace (rev (dropWhile py_isspace s)))"

text \<open>\<^verbatim>\<open>str(n)\<close> and \<^verbatim>\<open>f"{n}"\<close> for an int: decimal digits, with a minus sign if negative.\<close>

definition digit_char :: "nat \<Rightarrow> char" where
  "digit_char d = ''0123456789'' ! d"

fun digits10 :: "nat \<Rightarrow> string" where
  "digits10 n = (if n < 10 then [digit_char n] else digits10 (n div 10) @ [digit_char (n mod 10)])"

declare digits10.simps [simp del]

definition py_str :: "int \<Rightarrow> string" where
  "py_str i = (if i < 0 then CHR ''-'' # digits10 (nat (- i)) else digits10 (nat i))"

section \<open>Module constants\<close>

text \<open>Paper sizes in inches (width, height), portrait orientation.\<close>

definition PAPERS :: "(string \<times> pynum \<times> pynum) list" where
  "PAPERS =
    [(''4 x 6 in'', PyInt 4, PyInt 6),
     (''5 x 7 in'', PyInt 5, PyInt 7),
     (''A5'', float_literal (583 / 100), float_literal (827 / 100)),
     (''A4'', float_literal (827 / 100), float_literal (1169 / 100)),
     (''A3'', float_literal (1169 / 100), float_literal (1654 / 100)),
     (''Letter'', float_literal (17 / 2), PyInt 11),
     (''Legal'', float_literal (17 / 2), PyInt 14),
     (''Square 8 in'', PyInt 8, PyInt 8),
     (''Square 12 in'', PyInt 12, PyInt 12)]"

definition PAPER_NAMES :: "string list" where
  "PAPER_NAMES = map fst PAPERS"

text \<open>Layout presets: label, (columns, rows); (0, 0) is the automatic contact sheet.\<close>

definition LAYOUTS :: "(string \<times> int \<times> int) list" where
  "LAYOUTS =
    [(''Full Page (1)'', 1, 1),
     (''2 per page'', 1, 2),
     (''2 x 2 (4)'', 2, 2),
     (''3 x 3 (9)'', 3, 3),
     (''4 x 4 (16)'', 4, 4),
     (''5 x 5 (25)'', 5, 5),
     (''Contact Sheet'', 0, 0)]"

definition LAYOUT_NAMES :: "string list" where
  "LAYOUT_NAMES = map fst LAYOUTS"

section \<open>The configuration form and the settings computed from it\<close>

text \<open>
  What \<^verbatim>\<open>_gather_settings\<close> reads from the widgets: the selected index of each combo row,
  the value of each spin row (a float), the text of each entry row and the state of the
  PDF switch.
\<close>

record form =
  paper_row :: nat
  orient_row :: nat
  dpi_row :: nat
  layout_row :: nat
  border_row :: rat
  spacing_row :: rat
  margin_row :: rat
  bg_row :: string
  border_color_row :: string
  fill_row :: nat
  pdf_row :: bool

text \<open>The dict that \<^verbatim>\<open>_gather_settings\<close> returns.\<close>

record settings =
  tile :: string
  cell_w :: int
  cell_h :: int
  border :: int
  spacing :: int
  margin :: int
  bg :: string
  border_color :: string
  canvas_w :: int
  canvas_h :: int
  dpi :: int
  fill :: bool
  pdf :: bool

text \<open>
  The cell size and the tile spec (the \<^verbatim>\<open>if cols > 0 and rows > 0\<close> statement of
  \<^verbatim>\<open>_gather_settings\<close>); the result is \<open>(tile, cell_w, cell_h)\<close>. Python's \<^verbatim>\<open>//\<close> on ints
  is floor division, as \<open>div\<close> on \<open>int\<close> is.
\<close>

definition cell_size :: "int \<Rightarrow> int \<Rightarrow> int \<Rightarrow> int \<Rightarrow> int \<Rightarrow> int \<Rightarrow> int \<Rightarrow> string \<times> int \<times> int" where
  "cell_size cnv_w cnv_h mrg brd spc cols rows =
     (if cols > 0 \<and> rows > 0 then
        (let cw = (cnv_w - 2 * mrg - cols * 2 * (brd + spc)) div cols;
             ch = (cnv_h - 2 * mrg - rows * 2 * (brd + spc)) div rows
         in (py_str cols @ ''x'' @ py_str rows, max cw 64, max ch 64))
      else
        (let cw = (cnv_w - 2 * mrg) div 6
         in ('''', cw, cw)))"

text \<open>\<^verbatim>\<open>dpi_override or [150, 300, 600][...]\<close>: the table is only indexed when the override
  is \<^verbatim>\<open>None\<close> or zero.\<close>

definition select_dpi :: "int option \<Rightarrow> nat \<Rightarrow> py_error + int" where
  "select_dpi dpi_override sel =
     (case dpi_override of
        Some d \<Rightarrow> if d \<noteq> 0 then Inr d else py_index [150, 300, 600] sel
      | None \<Rightarrow> py_index [150, 300, 600] sel)"

definition text_or :: "string \<Rightarrow> string \<Rightarrow> string" where
  "text_or s dflt = (if py_strip s = [] then dflt else py_strip s)"

definition gather_settings :: "form \<Rightarrow> int option \<Rightarrow> py_error + settings" where
  "gather_settings w dpi_override =
     bind_err (py_index PAPER_NAMES (paper_row w)) (\<lambda>paper_name.
     bind_err (py_getitem PAPERS paper_name) (\<lambda>(pw0, ph0).
     (let (pw, ph) = (if orient_row w = 1 then (ph0, pw0) else (pw0, ph0)) in
     bind_err (select_dpi dpi_override (dpi_row w)) (\<lambda>d.
     bind_err (py_index LAYOUT_NAMES (layout_row w)) (\<lambda>layout_name.
     bind_err (py_getitem LAYOUTS layout_name) (\<lambda>(cols, rows).
     (let brd = py_int (PyFloat (border_row w));
          spc = py_int (PyFloat (spacing_row w));
          mrg = py_int (PyFloat (margin_row w));
          cnv_w = py_int (py_mul pw (PyInt d));
          cnv_h = py_int (py_mul ph (PyInt d));
          (tl, cw, ch) = cell_size cnv_w cnv_h mrg brd spc cols rows
      in Inr \<lparr> tile = tl, cell_w = cw, cell_h = ch,
               border = brd, spacing = spc, margin = mrg,
               bg = text_or (bg_row w) ''white'',
               border_color = text_or (border_color_row w) ''gray'',
               canvas_w = cnv_w, canvas_h = cnv_h, dpi = d,
               fill = (fill_row w = 1), pdf = pdf_row w \<rparr>)))))))"

section \<open>Chunking the image list into pages\<close>

text \<open>\<^verbatim>\<open>s.split(c)\<close> for a separator of one character.\<close>

fun split_on :: "char \<Rightarrow> string \<Rightarrow> string list" where
  "split_on c [] = [[]]"
| "split_on c (a # s) =
     (if a = c then [] # split_on c s
      else (case split_on c s of [] \<Rightarrow> [[a]] | p # ps \<Rightarrow> (a # p) # ps))"

text \<open>
  \<^verbatim>\<open>int(s)\<close> for a string: surrounding whitespace is stripped, one sign is allowed, and the
  rest must be decimal digits, with single underscores allowed between digits. The whitespace
  that \<^verbatim>\<open>int\<close> strips is not that of \<^verbatim>\<open>str.strip\<close>: the separators U+001C to U+001F are
  kept, and a string that has one is refused.
\<close>

definition int_isspace :: "char \<Rightarrow> bool" where
  "int_isspace c \<longleftrightarrow> c \<in> set [CHR 0x09, CHR 0x0A, CHR 0x0B, CHR 0x0C, CHR 0x0D,
     CHR 0x20, CHR 0x85, CHR 0xA0]"

definition int_strip :: "string \<Rightarrow> string" where
  "int_strip s = rev (dropWhile int_isspace (rev (dropWhile int_isspace s)))"

definition is_digit :: "char \<Rightarrow> bool" where
  "is_digit c \<longleftrightarrow> c \<in> set ''0123456789''"

definition digit_value :: "char \<Rightarrow> int" where
  "digit_value c = int (length (takeWhile (\<lambda>d. d \<noteq> c) ''0123456789''))"

fun valid_digits :: "string \<Rightarrow> bool" where
  "valid_digits [] = False"
| "valid_digits [c] = is_digit c"
| "valid_digits (c # d # r) =
     (is_digit c \<and> (if d = CHR ''_'' then valid_digits r else valid_digits (d # r)))"

definition digits_value :: "string \<Rightarrow> int" where
  "digits_value ds = foldl (\<lambda>acc c. 10 * acc + digit_value c) 0 ds"

definition parse_int :: "string \<Rightarrow> py_error + int" where
  "parse_int s =
     (let t = int_strip s;
          (neg, body) = (case t of
                           [] \<Rightarrow> (False, [])
                         | c # r \<Rightarrow> if c = CHR ''-'' then (True, r)
                                    else if c = CHR ''+'' then (False, r)
                                    else (False, t))
      in if valid_digits body
         then Inr ((if neg then - 1 else 1) * digits_value (filter (\<lambda>c. c \<noteq> CHR ''_'') body))
         else Inl ValueError)"

text \<open>
  \<^verbatim>\<open>cols, rows = (int(x) for x in s["tile"].split("x"))\<close>: unpacking needs exactly two parts,
  and each part must be an integer; every failure is a \<^verbatim>\<open>ValueError\<close>.
\<close>

definition parse_tile :: "string \<Rightarrow> py_error + int \<times> int" where
  "parse_tile t =
     (case split_on CHR ''x'' t of
        [a, b] \<Rightarrow> bind_err (parse_int a) (\<lambda>cols. bind_err (parse_int b) (\<lambda>rows. Inr (cols, rows)))
      | _ \<Rightarrow> Inl ValueError)"

text \<open>\<^verbatim>\<open>range(start, stop, step)\<close> as a list; a zero step raises \<^verbatim>\<open>ValueError\<close>.\<close>

definition range_len :: "int \<Rightarrow> int \<Rightarrow> int \<Rightarrow> nat" where
  "range_len start stop step =
     (if 0 < step then (if start < stop then nat ((stop - start - 1) div step + 1) else 0)
      else (if stop < start then nat ((start - stop - 1) div (- step) + 1) else 0))"

definition py_range :: "int \<Rightarrow> int \<Rightarrow> int \<Rightarrow> py_error + int list" where
  "py_range start stop step =
     (if step = 0 then Inl ValueError
      else Inr (map (\<lambda>k. start + int k * step) [0..<range_len start stop step]))"

text \<open>\<^verbatim>\<open>xs[lo:hi]\<close>: negative bounds count from the end, and both are clamped to the list.\<close>

definition slice_bound :: "nat \<Rightarrow> int \<Rightarrow> nat" where
  "slice_bound n i = (if i < 0 then nat (max 0 (int n + i)) else min n (nat i))"

definition py_slice :: "'a list \<Rightarrow> int \<Rightarrow> int \<Rightarrow> 'a list" where
  "py_slice xs lo hi =
     (let l = slice_bound (length xs) lo; h = slice_bound (length xs) hi
      in take (h - l) (drop l xs))"

text \<open>\<^verbatim>\<open>_chunk_images\<close>; the image list \<^verbatim>\<open>self.images\<close> is the first argument.\<close>

definition chunk_images :: "'a list \<Rightarrow> settings \<Rightarrow> py_error + 'a list list" where
  "chunk_images images s =
     (if tile s \<noteq> [] then
        bind_err (parse_tile (tile s)) (\<lambda>(cols, rows).
        (let per_page = cols * rows in
         bind_err (py_range 0 (int (length images)) per_page) (\<lambda>starts.
         Inr (map (\<lambda>i. py_slice images i (i + per_page)) starts))))
      else Inr [images])"

section \<open>External processes and the window\<close>

text \<open>
  What \<^verbatim>\<open>subprocess.run(..., capture_output=True)\<close> returns. The captured stderr is kept as
  the text that \<^verbatim>\<open>decode("utf-8", errors="replace")\<close> makes of it, one \<open>char\<close> for one
  character.
\<close>

record proc_result =
  returncode :: int
  stdout :: string
  stderr :: string

text \<open>
  The world outside the program: what the \<open>n\<close>-th subprocess started since the program began
  does with its arguments and its standard input, what \<^verbatim>\<open>shutil.which("magick")\<close> finds, and
  the directory that \<^verbatim>\<open>tempfile.mkdtemp\<close> creates for a prefix.
\<close>

record env =
  exec :: "nat \<Rightarrow> string list \<Rightarrow> string \<Rightarrow> proc_result"
  which_magick :: "string option"
  mkdtemp :: "string \<Rightarrow> string"

text \<open>
  The state of \<^verbatim>\<open>PhotoGridWindow\<close> that the handlers read and change: the image list, the
  subprocesses started so far with their results (in order), the toasts shown, the save
  dialogs opened (initial name and the settings handed to the callback), and the pages of the
  open preview window, if there is one.
\<close>

record window =
  images :: "string list"
  calls :: "(string list \<times> proc_result) list"
  toasts :: "string list"
  dialogs :: "(string \<times> settings) list"
  preview :: "string list option"

definition add_toast :: "string \<Rightarrow> window \<Rightarrow> window" where
  "add_toast title w = w\<lparr>toasts := toasts w @ [title]\<rparr>"

text \<open>\<^verbatim>\<open>subprocess.run(cmd, input=inp, capture_output=True, check=True)\<close>.\<close>

definition run :: "env \<Rightarrow> string list \<Rightarrow> string \<Rightarrow> window \<Rightarrow> (py_error + proc_result) \<times> window" where
  "run e cmd inp w =
     (let r = exec e (length (calls w)) cmd inp;
          w' = w\<lparr>calls := calls w @ [(cmd, r)]\<rparr>
      in if returncode r \<noteq> 0
         then (Inl (CalledProcessError cmd (returncode r) (stderr r)), w')
         else (Inr r, w'))"

subsection \<open>Rendering one page\<close>

definition size_spec :: "int \<Rightarrow> int \<Rightarrow> string" where
  "size_spec a b = py_str a @ ''x'' @ py_str b"

text \<open>The two commands that \<^verbatim>\<open>_run_montage\<close> builds.\<close>

definition cmd1 :: "string list \<Rightarrow> settings \<Rightarrow> string list" where
  "cmd1 imgs s =
     [''magick'', ''montage''] @ imgs
     @ (if fill s
        then [''-resize'', size_spec (cell_w s) (cell_h s) @ ''^'', ''-gravity'', ''center'',
              ''-extent'', size_spec (cell_w s) (cell_h s),
              ''-geometry'', ''+'' @ py_str (spacing s) @ ''+'' @ py_str (spacing s)]
        else [''-geometry'',
              size_spec (cell_w s) (cell_h s) @ ''+'' @ py_str (spacing s) @ ''+'' @ py_str (spacing s)])
     @ (if tile s \<noteq> [] then [''-tile'', tile s] else [])
     @ [''-border'', py_str (border s)]
     @ [''-bordercolor'', border_color s]
     @ [''-background'', bg s]
     @ [''png:-'']"

definition cmd2 :: "settings \<Rightarrow> string \<Rightarrow> string list" where
  "cmd2 s dest =
     [''magick'', ''-'', ''-gravity'', ''center'', ''-background'', bg s,
      ''-extent'', size_spec (canvas_w s) (canvas_h s),
      ''-units'', ''PixelsPerInch'', ''-density'', py_str (dpi s), dest]"

definition run_montage :: "env \<Rightarrow> string list \<Rightarrow> settings \<Rightarrow> string \<Rightarrow> window \<Rightarrow> (py_error + unit) \<times> window" where
  "run_montage e imgs s dest w =
     (case run e (cmd1 imgs s) [] w of
        (Inl err, w1) \<Rightarrow> (Inl err, w1)
      | (Inr r1, w1) \<Rightarrow>
          (case run e (cmd2 s dest) (stdout r1) w1 of
             (Inl err, w2) \<Rightarrow> (Inl err, w2)
           | (Inr r2, w2) \<Rightarrow> (Inr (), w2)))"

subsection \<open>Rendering all pages\<close>

text \<open>
  \<^verbatim>\<open>str(Path(tmpdir) / "page-{page}.png").format(page=n)\<close>, for a directory name as
  \<^verbatim>\<open>mkdtemp\<close> returns it (absolute, no braces, no trailing slash).
\<close>

definition page_pattern :: "string \<Rightarrow> int \<Rightarrow> string" where
  "page_pattern tmpdir n = tmpdir @ ''/page-'' @ py_str n @ ''.png''"

text \<open>The loop of \<^verbatim>\<open>_run_all_pages\<close> from index \<open>i\<close> on; an exception leaves the loop.\<close>

fun render_pages :: "env \<Rightarrow> settings \<Rightarrow> (int \<Rightarrow> string) \<Rightarrow> int \<Rightarrow> string list list \<Rightarrow> string list
    \<Rightarrow> window \<Rightarrow> (py_error + string list) \<times> window" where
  "render_pages e s dest_pattern i [] paths w = (Inr paths, w)"
| "render_pages e s dest_pattern i (chunk # rest) paths w =
     (let dest = dest_pattern (i + 1) in
      case run_montage e chunk s dest w of
        (Inl err, w') \<Rightarrow> (Inl err, w')
      | (Inr u, w') \<Rightarrow> render_pages e s dest_pattern (i + 1) rest (paths @ [dest]) w')"

definition run_all_pages :: "env \<Rightarrow> settings \<Rightarrow> (int \<Rightarrow> string) \<Rightarrow> window \<Rightarrow> (py_error + string list) \<times> window" where
  "run_all_pages e s dest_pattern w =
     (case chunk_images (images w) s of
        Inl err \<Rightarrow> (Inl err, w)
      | Inr chunks \<Rightarrow> render_pages e s dest_pattern 0 chunks [] w)"

subsection \<open>Preview\<close>

definition check_ready :: "env \<Rightarrow> window \<Rightarrow> bool \<times> window" where
  "check_ready e w =
     (if images w = [] then (False, add_toast ''Add some images first'' w)
      else if which_magick e = None \<or> which_magick e = Some []
      then (False, add_toast ''ImageMagick not found - install it first'' w)
      else (True, w))"

text \<open>The text of the toast for a failed subprocess: the stderr, stripped, cut at 120
  characters.\<close>

definition error_excerpt :: "string \<Rightarrow> string" where
  "error_excerpt err_text = take 120 (py_strip err_text)"

text \<open>\<^verbatim>\<open>_show_preview\<close>: the first page is loaded right away, so an empty list raises.\<close>

definition show_preview :: "string list \<Rightarrow> window \<Rightarrow> (py_error + unit) \<times> window" where
  "show_preview pages w =
     (if pages = [] then (Inl IndexError, w\<lparr>preview := Some []\<rparr>)
      else (Inr (), w\<lparr>preview := Some pages\<rparr>))"

definition on_preview :: "env \<Rightarrow> form \<Rightarrow> window \<Rightarrow> (py_error + unit) \<times> window" where
  "on_preview e f w =
     (case check_ready e w of
        (False, w0) \<Rightarrow> (Inr (), w0)
      | (True, w0) \<Rightarrow>
          (case gather_settings f (Some 72) of
             Inl err \<Rightarrow> (Inl err, w0)
           | Inr s \<Rightarrow>
               (let tmpdir = mkdtemp e ''photogrid_'';
                    pattern = page_pattern tmpdir
                in case run_all_pages e s pattern w0 of
                     (Inl (CalledProcessError c rc err_text), w1) \<Rightarrow>
                        (Inr (), add_toast (''Error: '' @ error_excerpt err_text) w1)
                   | (Inl err, w1) \<Rightarrow> (Inl err, w1)
                   | (Inr pages, w1) \<Rightarrow> show_preview pages w1)))"

subsection \<open>Saving\<close>

text \<open>
  The parts of \<^verbatim>\<open>pathlib.Path\<close> that \<^verbatim>\<open>_on_save_ready\<close> uses, for POSIX paths: a path is
  its root and its components, empty and \<^verbatim>\<open>.\<close> components being dropped; the suffix of a
  name starts at its last dot, unless that dot is the first or the last character.
\<close>

definition path_root :: "string \<Rightarrow> string" where
  "path_root p = (if take 2 p = ''//'' \<and> take 3 p \<noteq> ''///'' then ''//''
                  else if take 1 p = ''/'' then ''/'' else [])"

definition path_parts :: "string \<Rightarrow> string list" where
  "path_parts p = filter (\<lambda>c. c \<noteq> [] \<and> c \<noteq> ''.'') (split_on CHR ''/'' p)"

definition path_name :: "string \<Rightarrow> string" where
  "path_name p = (if path_parts p = [] then [] else last (path_parts p))"

definition path_suffix :: "string \<Rightarrow> string" where
  "path_suffix p =
     (let name = path_name p; after = takeWhile (\<lambda>c. c \<noteq> CHR ''.'') (rev name)
      in if CHR ''.'' \<in> set name \<and> after \<noteq> [] \<and> length after + 1 < length name
         then CHR ''.'' # rev after else [])"

definition path_stem :: "string \<Rightarrow> string" where
  "path_stem p = take (length (path_name p) - length (path_suffix p)) (path_name p)"

fun join_slash :: "string list \<Rightarrow> string" where
  "join_slash [] = []"
| "join_slash [c] = c"
| "join_slash (c # cs) = c @ ''/'' @ join_slash cs"

text \<open>\<^verbatim>\<open>str(p.with_name(name))\<close>; a path with an empty name raises \<^verbatim>\<open>ValueError\<close>.\<close>

definition with_name :: "string \<Rightarrow> string \<Rightarrow> py_error + string" where
  "with_name p name =
     (if path_name p = [] then Inl ValueError
      else Inr (path_root p @ join_slash (butlast (path_parts p) @ [name])))"

text \<open>\<^verbatim>\<open>str.lower\<close> on characters below U+0100, and \<^verbatim>\<open>str.endswith\<close>.\<close>

definition lower_char :: "char \<Rightarrow> char" where
  "lower_char c =
     (let n = (of_char c :: nat)
      in if (65 \<le> n \<and> n \<le> 90) \<or> (192 \<le> n \<and> n \<le> 222 \<and> n \<noteq> 215) then char_of (n + 32) else c)"

definition py_lower :: "string \<Rightarrow> string" where
  "py_lower s = map lower_char s"

definition endswith :: "string \<Rightarrow> string \<Rightarrow> bool" where
  "endswith s suffix \<longleftrightarrow> length suffix \<le> length s \<and> drop (length s - length suffix) s = suffix"

definition close_preview :: "window \<Rightarrow> window" where
  "close_preview w = w\<lparr>preview := None\<rparr>"

text \<open>The loop over \<^verbatim>\<open>enumerate(chunks, 1)\<close> that saves numbered files, from number \<open>i\<close> on.\<close>

fun save_numbered :: "env \<Rightarrow> settings \<Rightarrow> string \<Rightarrow> string \<Rightarrow> string \<Rightarrow> int \<Rightarrow> string list list
    \<Rightarrow> window \<Rightarrow> (py_error + unit) \<times> window" where
  "save_numbered e s p stem ext i [] w = (Inr (), w)"
| "save_numbered e s p stem ext i (chunk # rest) w =
     (case with_name p (stem @ ''-'' @ py_str i @ ext) of
        Inl err \<Rightarrow> (Inl err, w)
      | Inr out \<Rightarrow>
          (case run_montage e chunk s out w of
             (Inl err, w') \<Rightarrow> (Inl err, w')
           | (Inr u, w') \<Rightarrow> save_numbered e s p stem ext (i + 1) rest w'))"

text \<open>The body of the \<^verbatim>\<open>try\<close> statement of \<^verbatim>\<open>_on_save_ready\<close>.\<close>

definition save_body :: "env \<Rightarrow> string \<Rightarrow> settings \<Rightarrow> string list list \<Rightarrow> window \<Rightarrow> (py_error + unit) \<times> window" where
  "save_body e dest s chunks w =
     (if pdf s then
        (let tmpdir = mkdtemp e ''photogrid_pdf_'';
             pattern = page_pattern tmpdir
         in case run_all_pages e s pattern w of
              (Inl err, w1) \<Rightarrow> (Inl err, w1)
            | (Inr page_files, w1) \<Rightarrow>
                (let dest' = (if \<not> endswith (py_lower dest) ''.pdf'' then dest @ ''.pdf'' else dest);
                     cmd = [''magick''] @ page_files
                           @ [''-units'', ''PixelsPerInch'', ''-density'', py_str (dpi s), dest']
                 in case run e cmd [] w1 of
                      (Inl err, w2) \<Rightarrow> (Inl err, w2)
                    | (Inr r, w2) \<Rightarrow>
                        (Inr (), close_preview (add_toast
                           (''Saved '' @ py_str (int (length page_files)) @ ''-page PDF'') w2))))
      else if length chunks = 1 then
        (case run_montage e (chunks ! 0) s dest w of
           (Inl err, w1) \<Rightarrow> (Inl err, w1)
         | (Inr u, w1) \<Rightarrow>
             (Inr (), close_preview (add_toast (''Saved to '' @ path_name dest) w1)))
      else
        (let stem = path_stem dest;
             ext = (if path_suffix dest = [] then ''.jpg'' else path_suffix dest)
         in case save_numbered e s dest stem ext 1 chunks w of
              (Inl err, w1) \<Rightarrow> (Inl err, w1)
            | (Inr u, w1) \<Rightarrow>
                (Inr (), close_preview (add_toast
                   (''Saved '' @ py_str (int (length chunks)) @ '' files'') w1))))"

text \<open>
  \<^verbatim>\<open>_on_save_ready\<close>; the destination is \<open>None\<close> when the dialog was cancelled
  (\<^verbatim>\<open>save_finish\<close> raises \<^verbatim>\<open>GLib.Error\<close>).
\<close>

definition on_save_ready :: "env \<Rightarrow> string option \<Rightarrow> settings \<Rightarrow> window \<Rightarrow> (py_error + unit) \<times> window" where
  "on_save_ready e dest_opt s w =
     (case dest_opt of
        None \<Rightarrow> (Inr (), w)
      | Some dest \<Rightarrow>
          (case chunk_images (images w) s of
             Inl err \<Rightarrow> (Inl err, w)
           | Inr chunks \<Rightarrow>
               (case save_body e dest s chunks w of
                  (Inl (CalledProcessError c rc err_text), w1) \<Rightarrow>
                     (Inr (), add_toast (''Error: '' @ error_excerpt err_text) w1)
                | (Inl err, w1) \<Rightarrow> (Inl err, w1)
                | (Inr u, w1) \<Rightarrow> (Inr (), w1))))"

text \<open>\<^verbatim>\<open>_on_generate\<close>: the save dialog is opened with the gathered settings as user data.\<close>

definition on_generate :: "env \<Rightarrow> form \<Rightarrow> window \<Rightarrow> (py_error + unit) \<times> window" where
  "on_generate e f w =
     (case check_ready e w of
        (False, w0) \<Rightarrow> (Inr (), w0)
      | (True, w0) \<Rightarrow>
          (case gather_settings f None of
             Inl err \<Rightarrow> (Inl err, w0)
           | Inr s \<Rightarrow>
               (let name = (if pdf s then ''grid.pdf'' else ''grid.jpg'')
                in (Inr (), w0\<lparr>dialogs := dialogs w0 @ [(name, s)]\<rparr>))))"

section \<open>Reference definitions for the stated properties\<close>

text \<open>The paper sizes of \<open>PAPERS\<close> read as exact decimal numbers of inches.\<close>

definition paper_inches :: "(rat \<times> rat) list" where
  "paper_inches =
    [(4, 6), (5, 7), (583 / 100, 827 / 100), (827 / 100, 1169 / 100),
     (1169 / 100, 1654 / 100), (17 / 2, 11), (17 / 2, 14), (8, 8), (12, 12)]"

text \<open>The paper dimensions after the orientation swap of \<^verbatim>\<open>_gather_settings\<close>.\<close>

definition paper_dims :: "form \<Rightarrow> pynum \<times> pynum" where
  "paper_dims w = (let (pw0, ph0) = snd (PAPERS ! paper_row w)
                   in if orient_row w = 1 then (ph0, pw0) else (pw0, ph0))"

text \<open>
  The cell size as the specification words it: the floor of the quotient of the space
  left after margins, borders and spacing by the number of cells, clamped to at least 64.
\<close>

definition spec_cell :: "int \<Rightarrow> int \<Rightarrow> int \<Rightarrow> int \<Rightarrow> int \<Rightarrow> int" where
  "spec_cell canvas mrg brd spc n =
     max \<lfloor>rat_of_int (canvas - 2 * mrg - n * 2 * (brd + spc)) / rat_of_int n\<rfloor> 64"

text \<open>Python's built-in \<^verbatim>\<open>round\<close> with one argument: to the nearest integer, ties to even.\<close>

definition py_round :: "pynum \<Rightarrow> int" where
  "py_round x = (case x of PyInt i \<Rightarrow> i
                 | PyFloat r \<Rightarrow> (case quotient_of r of (p, q) \<Rightarrow> round_half_even_div p q))"

text \<open>The state of the form as \<^verbatim>\<open>PhotoGridWindow.__init__\<close> sets it up.\<close>

definition default_form :: form where
  "default_form = \<lparr> paper_row = 3, orient_row = 0, dpi_row = 1, layout_row = 2,
     border_row = 2, spacing_row = 4, margin_row = 20,
     bg_row = ''white'', border_color_row = ''black'', fill_row = 0, pdf_row = False \<rparr>"

text \<open>The settings gathered from the default form, and from it with the contact sheet selected.\<close>

definition default_settings :: settings where
  "default_settings = \<lparr> tile = ''2x2'', cell_w = 1208, cell_h = 1721, border = 2, spacing = 4,
     margin = 20, bg = ''white'', border_color = ''black'', canvas_w = 2481, canvas_h = 3507,
     dpi = 300, fill = False, pdf = False \<rparr>"

definition contact_settings :: settings where
  "contact_settings = \<lparr> tile = [], cell_w = 406, cell_h = 406, border = 2, spacing = 4,
     margin = 20, bg = ''white'', border_color = ''black'', canvas_w = 2481, canvas_h = 3507,
     dpi = 300, fill = False, pdf = False \<rparr>"

text \<open>
  Worlds for the instances below: one where every subprocess succeeds, and one where the
  subprocess number \<open>k\<close> (from zero) exits with status 1 and a diagnostic on stderr.
\<close>

definition ok_env :: env where
  "ok_env = \<lparr> exec = (\<lambda>n cmd inp. \<lparr> returncode = 0, stdout = ''png'', stderr = [] \<rparr>),
     which_magick = Some ''/usr/bin/magick'',
     mkdtemp = (\<lambda>prefix. ''/tmp/'' @ prefix @ ''k3'') \<rparr>"

definition failing_env :: "nat \<Rightarrow> env" where
  "failing_env k = ok_env \<lparr> exec := (\<lambda>n cmd inp.
      if n = k then \<lparr> returncode = 1, stdout = [], stderr = '' montage: unable to open image  '' \<rparr>
      else \<lparr> returncode = 0, stdout = ''png'', stderr = [] \<rparr>) \<rparr>"

text \<open>A window with the given images and nothing done yet.\<close>

definition start_window :: "string list \<Rightarrow> window" where
  "start_window imgs = \<lparr> images = imgs, calls = [], toasts = [], dialogs = [], preview = None \<rparr>"

text \<open>
  Predicates on the subprocesses started by an operation: all exited with status zero; or all
  but the last did, and the last failed with the given stderr text.
\<close>

definition quiet :: "(string list \<times> proc_result) list \<Rightarrow> bool" where
  "quiet cs \<longleftrightarrow> (\<forall>c \<in> set cs. returncode (snd c) = 0)"

definition ends_in_failure :: "(string list \<times> proc_result) list \<Rightarrow> string \<Rightarrow> bool" where
  "ends_in_failure cs err_text \<longleftrightarrow>
     cs \<noteq> [] \<and> quiet (butlast cs) \<and> returncode (snd (last cs)) \<noteq> 0
     \<and> err_text = stderr (snd (last cs))"

text \<open>
  What holds of a step of the rendering pipeline started in \<open>w\<close>: the subprocess log only
  grows, toasts and images are untouched, and a \<^verbatim>\<open>CalledProcessError\<close> is raised exactly by
  the last subprocess started, all earlier ones having succeeded.
\<close>

definition outcome :: "window \<Rightarrow> (py_error + 'a) \<times> window \<Rightarrow> bool" where
  "outcome w rw \<longleftrightarrow>
     (\<exists>new. calls (snd rw) = calls w @ new \<and> toasts (snd rw) = toasts w
        \<and> images (snd rw) = images w
        \<and> (case fst rw of
              Inl (CalledProcessError c rc err_text) \<Rightarrow> ends_in_failure new err_text
            | _ \<Rightarrow> quiet new))"

text \<open>
  What holds of a whole preview or save request: either no subprocess failed, or the last one
  started did, the handler returned normally and one toast with the error excerpt was added.
\<close>

definition handled :: "window \<Rightarrow> (py_error + unit) \<times> window \<Rightarrow> bool" where
  "handled w rw \<longleftrightarrow>
     (\<exists>new. calls (snd rw) = calls w @ new
        \<and> (quiet new
           \<or> (\<exists>t. ends_in_failure new t \<and> fst rw = Inr ()
                 \<and> toasts (snd rw) = toasts w @ [''Error: '' @ error_excerpt t])))"

definition five_images :: "string list" where
  "five_images = [''a.jpg'', ''b.jpg'', ''c.jpg'', ''d.jpg'', ''e.jpg'']"

text \<open>
  The \<open>i\<close>-th numbered sibling of a destination path: in the same directory, the stem of
  the name, a dash and \<open>i\<close>, then the extension of the name, or \<^verbatim>\<open>.jpg\<close> if it has none.
\<close>

definition numbered_path :: "string \<Rightarrow> int \<Rightarrow> string" where
  "numbered_path dest i =
     path_root dest @ join_slash (butlast (path_parts dest) @
       [path_stem dest @ ''-'' @ py_str i
          @ (if path_suffix dest = [] then ''.jpg'' else path_suffix dest)])"

text \<open>
  The commands of a run in which every page is rendered: for each chunk in order the compose
  command on that chunk and then the fit-to-canvas command writing to \<open>out i\<close>, the pages
  being numbered from \<open>i\<close>.
\<close>

fun expected_cmds :: "settings \<Rightarrow> (int \<Rightarrow> string) \<Rightarrow> int \<Rightarrow> string list list \<Rightarrow> string list list" where
  "expected_cmds s out i [] = []"
| "expected_cmds s out i (chunk # rest) =
     cmd1 chunk s # cmd2 s (out i) # expected_cmds s out (i + 1) rest"

text \<open>A world in which every subprocess exits with status zero.\<close>

definition succeeds :: "env \<Rightarrow> bool" where
  "succeeds e \<longleftrightarrow> (\<forall>n cmd inp. returncode (exec e n cmd inp) = 0)"

text \<open>The settings gathered from the default form with one image per page.\<close>

definition full_page_settings :: settings where
  "full_page_settings = \<lparr> tile = ''1x1'', cell_w = 2429, cell_h = 3455, border = 2, spacing = 4,
     margin = 20, bg = ''white'', border_color = ''black'', canvas_w = 2481, canvas_h = 3507,
     dpi = 300, fill = False, pdf = False \<rparr>"

text \<open>A command is one of the two that render a page with the settings \<open>s\<close>.\<close>

definition page_cmd :: "settings \<Rightarrow> string list \<Rightarrow> bool" where
  "page_cmd s c \<longleftrightarrow> (\<exists>imgs. c = cmd1 imgs s) \<or> (\<exists>dest. c = cmd2 s dest)"

text \<open>The settings that a preview gathers from the default form.\<close>

definition preview_settings :: settings where
  "preview_settings = \<lparr> tile = ''2x2'', cell_w = 265, cell_h = 388, border = 2, spacing = 4,
     margin = 20, bg = ''white'', border_color = ''black'', canvas_w = 595, canvas_h = 841,
     dpi = 72, fill = False, pdf = False \<rparr>"

section \<open>The settings computed by the planner\<close>

lemma nat_lt_9: "i < 9 \<Longrightarrow> i = 0 \<or> i = 1 \<or> i = 2 \<or> i = 3 \<or> i = 4 \<or> i = 5 \<or> i = 6 \<or> i = 7 \<or> i = (8::nat)"
  by arith

lemma nat_lt_7: "i < 7 \<Longrightarrow> i = 0 \<or> i = 1 \<or> i = 2 \<or> i = 3 \<or> i = 4 \<or> i = 5 \<or> i = (6::nat)"
  by arith

lemma length_PAPERS: "length PAPERS = 9" "length PAPER_NAMES = 9"
  by (simp_all add: PAPERS_def PAPER_NAMES_def)

lemma length_LAYOUTS: "length LAYOUTS = 7" "length LAYOUT_NAMES = 7"
  by (simp_all add: LAYOUTS_def LAYOUT_NAMES_def)

lemma PAPERS_lookup:
  assumes "i < 9"
  shows "py_getitem PAPERS (PAPER_NAMES ! i) = Inr (snd (PAPERS ! i))"
  using nat_lt_9 [OF assms]
  by (elim disjE) (simp_all add: py_getitem_def PAPERS_def PAPER_NAMES_def)

lemma LAYOUTS_lookup:
  assumes "i < 7"
  shows "py_getitem LAYOUTS (LAYOUT_NAMES ! i) = Inr (snd (LAYOUTS ! i))"
  using nat_lt_7 [OF assms]
  by (elim disjE) (simp_all add: py_getitem_def LAYOUTS_def LAYOUT_NAMES_def)

lemma paper_bind:
  "bind_err (py_index PAPER_NAMES i) (\<lambda>n. bind_err (py_getitem PAPERS n) f) =
     (if i < 9 then f (snd (PAPERS ! i)) else Inl IndexError)"
  by (simp add: bind_err_def py_index_def length_PAPERS PAPERS_lookup)

lemma layout_bind:
  "bind_err (py_index LAYOUT_NAMES i) (\<lambda>n. bind_err (py_getitem LAYOUTS n) f) =
     (if i < 7 then f (snd (LAYOUTS ! i)) else Inl IndexError)"
  by (simp add: bind_err_def py_index_def length_LAYOUTS LAYOUTS_lookup)

lemma gather_settings_Inr:
  assumes "gather_settings w ov = Inr s"
  shows "paper_row w < 9 \<and> layout_row w < 7 \<and> select_dpi ov (dpi_row w) = Inr (dpi s)
    \<and> canvas_w s = py_int (py_mul (fst (paper_dims w)) (PyInt (dpi s)))
    \<and> canvas_h s = py_int (py_mul (snd (paper_dims w)) (PyInt (dpi s)))
    \<and> border s = py_int (PyFloat (border_row w))
    \<and> spacing s = py_int (PyFloat (spacing_row w))
    \<and> margin s = py_int (PyFloat (margin_row w))
    \<and> (tile s, cell_w s, cell_h s) =
         cell_size (canvas_w s) (canvas_h s) (margin s) (border s) (spacing s)
           (fst (snd (LAYOUTS ! layout_row w))) (snd (snd (LAYOUTS ! layout_row w)))"
  using assms unfolding gather_settings_def paper_bind layout_bind
  by (auto simp: paper_dims_def bind_err_def Let_def split: if_splits sum.splits prod.splits)

lemma gather_settings_total:
  assumes "paper_row w < 9" "layout_row w < 7" "select_dpi ov (dpi_row w) = Inr d"
  shows "\<exists>s. gather_settings w ov = Inr s"
  using assms unfolding gather_settings_def paper_bind layout_bind
  by (auto simp: bind_err_def Let_def split: if_splits sum.splits prod.splits)

text \<open>The binary64 products of the paper sizes and the DPI values, truncated.\<close>

lemma product_583:
  "\<forall>d \<in> set [150, 300, 600, 72].
     py_int (py_mul (float_literal (583 / 100)) (PyInt d)) = \<lfloor>583 / 100 * rat_of_int d\<rfloor>"
  by code_simp

lemma product_827:
  "\<forall>d \<in> set [150, 300, 600, 72].
     py_int (py_mul (float_literal (827 / 100)) (PyInt d)) = \<lfloor>827 / 100 * rat_of_int d\<rfloor>"
  by code_simp

lemma product_1169:
  "\<forall>d \<in> set [150, 300, 600, 72].
     py_int (py_mul (float_literal (1169 / 100)) (PyInt d)) = \<lfloor>1169 / 100 * rat_of_int d\<rfloor>"
  by code_simp

lemma product_1654:
  "\<forall>d \<in> set [150, 300, 600, 72].
     py_int (py_mul (float_literal (1654 / 100)) (PyInt d)) = \<lfloor>1654 / 100 * rat_of_int d\<rfloor>"
  by code_simp

lemma product_17:
  "\<forall>d \<in> set [150, 300, 600, 72].
     py_int (py_mul (float_literal (17 / 2)) (PyInt d)) = \<lfloor>17 / 2 * rat_of_int d\<rfloor>"
  by code_simp

lemma float_product:
  assumes "d \<in> {150, 300, 600, 72}"
  shows "py_int (py_mul (float_literal (583 / 100)) (PyInt d)) = \<lfloor>583 / 100 * rat_of_int d\<rfloor>"
    and "py_int (py_mul (float_literal (827 / 100)) (PyInt d)) = \<lfloor>827 / 100 * rat_of_int d\<rfloor>"
    and "py_int (py_mul (float_literal (1169 / 100)) (PyInt d)) = \<lfloor>1169 / 100 * rat_of_int d\<rfloor>"
    and "py_int (py_mul (float_literal (1654 / 100)) (PyInt d)) = \<lfloor>1654 / 100 * rat_of_int d\<rfloor>"
    and "py_int (py_mul (float_literal (17 / 2)) (PyInt d)) = \<lfloor>17 / 2 * rat_of_int d\<rfloor>"
proof -
  have m: "d \<in> set [150, 300, 600, 72]" using assms by simp
  show "py_int (py_mul (float_literal (583 / 100)) (PyInt d)) = \<lfloor>583 / 100 * rat_of_int d\<rfloor>"
    by (rule bspec [OF product_583 m])
  show "py_int (py_mul (float_literal (827 / 100)) (PyInt d)) = \<lfloor>827 / 100 * rat_of_int d\<rfloor>"
    by (rule bspec [OF product_827 m])
  show "py_int (py_mul (float_literal (1169 / 100)) (PyInt d)) = \<lfloor>1169 / 100 * rat_of_int d\<rfloor>"
    by (rule bspec [OF product_1169 m])
  show "py_int (py_mul (float_literal (1654 / 100)) (PyInt d)) = \<lfloor>1654 / 100 * rat_of_int d\<rfloor>"
    by (rule bspec [OF product_1654 m])
  show "py_int (py_mul (float_literal (17 / 2)) (PyInt d)) = \<lfloor>17 / 2 * rat_of_int d\<rfloor>"
    by (rule bspec [OF product_17 m])
qed

lemma int_product:
  "py_int (py_mul (PyInt a) (PyInt d)) = \<lfloor>rat_of_int a * rat_of_int d\<rfloor>"
  by (simp only: py_mul.simps py_int.simps of_int_mult [symmetric] floor_of_int)

lemmas int_product_numeral = int_product [of "numeral b" for b, unfolded of_int_numeral]

lemma PAPERS_nth:
  "PAPERS ! 0 = (''4 x 6 in'', PyInt 4, PyInt 6)"
  "PAPERS ! 1 = (''5 x 7 in'', PyInt 5, PyInt 7)"
  "PAPERS ! 2 = (''A5'', float_literal (583 / 100), float_literal (827 / 100))"
  "PAPERS ! 3 = (''A4'', float_literal (827 / 100), float_literal (1169 / 100))"
  "PAPERS ! 4 = (''A3'', float_literal (1169 / 100), float_literal (1654 / 100))"
  "PAPERS ! 5 = (''Letter'', float_literal (17 / 2), PyInt 11)"
  "PAPERS ! 6 = (''Legal'', float_literal (17 / 2), PyInt 14)"
  "PAPERS ! 7 = (''Square 8 in'', PyInt 8, PyInt 8)"
  "PAPERS ! 8 = (''Square 12 in'', PyInt 12, PyInt 12)"
  by (simp_all add: PAPERS_def)

lemma paper_inches_nth:
  "paper_inches ! 0 = (4, 6)"
  "paper_inches ! 1 = (5, 7)"
  "paper_inches ! 2 = (583 / 100, 827 / 100)"
  "paper_inches ! 3 = (827 / 100, 1169 / 100)"
  "paper_inches ! 4 = (1169 / 100, 1654 / 100)"
  "paper_inches ! 5 = (17 / 2, 11)"
  "paper_inches ! 6 = (17 / 2, 14)"
  "paper_inches ! 7 = (8, 8)"
  "paper_inches ! 8 = (12, 12)"
  by (simp_all add: paper_inches_def)

lemma canvas_px:
  assumes "i < 9" "d \<in> {150, 300, 600, 72}"
  shows "py_int (py_mul (fst (snd (PAPERS ! i))) (PyInt d)) = \<lfloor>fst (paper_inches ! i) * of_int d\<rfloor>
       \<and> py_int (py_mul (snd (snd (PAPERS ! i))) (PyInt d)) = \<lfloor>snd (paper_inches ! i) * of_int d\<rfloor>"
  using nat_lt_9 [OF assms(1)]
  by (elim disjE)
     (simp_all only: PAPERS_nth paper_inches_nth fst_conv snd_conv
        float_product [OF assms(2)] int_product_numeral simp_thms)

lemma select_dpi_None:
  "k < 3 \<Longrightarrow> select_dpi None k = Inr ([150, 300, 600] ! k)"
  by (simp add: select_dpi_def py_index_def)

lemma dpi_choice: "k < 3 \<Longrightarrow> [150, 300, 600 :: int] ! k \<in> {150, 300, 600, 72}"
  by (auto simp: less_Suc_eq numeral_3_eq_3)

lemma spec_cell_div: "spec_cell canvas mrg brd spc n = max ((canvas - 2 * mrg - n * 2 * (brd + spc)) div n) 64"
  unfolding spec_cell_def by (simp only: floor_divide_of_int_eq)

text \<open>
  Claim C1. For a concrete grid shape with at least one column and one row, the cell width
  is the floor of \<open>(canvas_w - 2 * margin - columns * 2 * (border + spacing)) / columns\<close>
  clamped to at least 64, the cell height likewise with rows and the canvas height, and the
  tile spec is the string of the columns, an \<open>x\<close> and the rows. Both cell dimensions are
  at least 64 whatever the sign of the unclamped quotient. This holds of the computation
  itself for every shape, and of the settings gathered from any form whose selected layout
  is that shape.
\<close>

theorem concrete_grid_cell_size:
  assumes "1 \<le> cols" and "1 \<le> rows"
  shows "cell_size cnv_w cnv_h mrg brd spc cols rows =
           (py_str cols @ ''x'' @ py_str rows,
            spec_cell cnv_w mrg brd spc cols, spec_cell cnv_h mrg brd spc rows)
       \<and> 64 \<le> spec_cell cnv_w mrg brd spc cols
       \<and> 64 \<le> spec_cell cnv_h mrg brd spc rows
       \<and> (gather_settings w ov = Inr s \<and> snd (LAYOUTS ! layout_row w) = (cols, rows) \<longrightarrow>
            tile s = py_str cols @ ''x'' @ py_str rows
          \<and> cell_w s = spec_cell (canvas_w s) (margin s) (border s) (spacing s) cols
          \<and> cell_h s = spec_cell (canvas_h s) (margin s) (border s) (spacing s) rows
          \<and> 64 \<le> cell_w s \<and> 64 \<le> cell_h s)"
proof -
  have cs: "cell_size a b m c d cols rows =
           (py_str cols @ ''x'' @ py_str rows, spec_cell a m c d cols, spec_cell b m c d rows)"
    for a b m c d
    using assms by (simp add: cell_size_def Let_def spec_cell_div)
  have ge: "64 \<le> spec_cell a m c d n" for a m c d n
    by (simp add: spec_cell_div)
  have "tile s = py_str cols @ ''x'' @ py_str rows
          \<and> cell_w s = spec_cell (canvas_w s) (margin s) (border s) (spacing s) cols
          \<and> cell_h s = spec_cell (canvas_h s) (margin s) (border s) (spacing s) rows
          \<and> 64 \<le> cell_w s \<and> 64 \<le> cell_h s"
    if g: "gather_settings w ov = Inr s" and l: "snd (LAYOUTS ! layout_row w) = (cols, rows)"
  proof -
    from gather_settings_Inr [OF g] l
    have "(tile s, cell_w s, cell_h s) =
         cell_size (canvas_w s) (canvas_h s) (margin s) (border s) (spacing s) cols rows"
      by simp
    then show ?thesis unfolding cs using ge by simp
  qed
  with cs ge show ?thesis by blast
qed

text \<open>
  An instance of C1 where the unclamped quotient is negative: the smallest paper at the
  preview resolution, five by five cells, the widest border, spacing and margin.
\<close>

theorem concrete_grid_cell_size_witness:
  "(1::int) \<le> 5
   \<and> gather_settings
        (default_form \<lparr> paper_row := 0, layout_row := 5, border_row := 50, spacing_row := 50,
                        margin_row := 100 \<rparr>) (Some 72) =
       Inr \<lparr> tile = ''5x5'', cell_w = 64, cell_h = 64, border = 50, spacing = 50, margin = 100,
             bg = ''white'', border_color = ''black'', canvas_w = 288, canvas_h = 432, dpi = 72,
             fill = False, pdf = False \<rparr>
   \<and> snd (LAYOUTS ! 5) = (5, 5)
   \<and> cell_size 288 432 100 50 50 5 5 = (''5x5'', 64, 64)
   \<and> spec_cell 288 100 50 50 5 = 64
   \<and> (288 - 2 * 100 - 5 * 2 * (50 + 50)) div 5 < (0::int)"
proof -
  let ?F = "default_form \<lparr> paper_row := 0, layout_row := 5, border_row := 50, spacing_row := 50,
                        margin_row := 100 \<rparr>"
  let ?S = "\<lparr> tile = ''5x5'', cell_w = 64, cell_h = 64, border = 50, spacing = 50, margin = 100,
             bg = ''white'', border_color = ''black'', canvas_w = 288, canvas_h = 432, dpi = 72,
             fill = False, pdf = False \<rparr>"
  have h: "(1::int) \<le> 5" by simp
  have g: "gather_settings ?F (Some 72) = Inr ?S" by code_simp
  have l: "snd (LAYOUTS ! layout_row ?F) = (5, 5)" by (simp add: LAYOUTS_def default_form_def)
  have l': "snd (LAYOUTS ! 5) = (5, 5)" by (simp add: LAYOUTS_def)
  have t: "py_str 5 @ ''x'' @ py_str 5 = ''5x5''" by code_simp
  have v: "spec_cell 288 100 50 50 5 = 64" "spec_cell 432 100 50 50 5 = 64"
    by (simp_all add: spec_cell_div)
  from concrete_grid_cell_size [OF h h, of 288 432 100 50 50 ?F "Some 72" ?S] g l
  have "cell_size 288 432 100 50 50 5 5 = (''5x5'', 64, 64)"
    unfolding t v by simp
  with h g l' v show ?thesis by simp
qed

text \<open>
  Claim C2, as the code has it. With a concrete grid the cell width and height are at least
  64. In contact-sheet mode no clamp is applied: the cell is a square of side
  \<open>(canvas_w - 2 * margin) div 6\<close>, which is at least 64 exactly when
  \<open>canvas_w - 2 * margin\<close> is at least 384.
\<close>

theorem cell_floor_by_mode:
  assumes "gather_settings w ov = Inr s"
    and "snd (LAYOUTS ! layout_row w) = (cols, rows)"
  shows "if cols > 0 \<and> rows > 0
         then 64 \<le> cell_w s \<and> 64 \<le> cell_h s
         else tile s = [] \<and> cell_w s = (canvas_w s - 2 * margin s) div 6 \<and> cell_h s = cell_w s
              \<and> (64 \<le> cell_w s \<longleftrightarrow> 384 \<le> canvas_w s - 2 * margin s)"
proof -
  from gather_settings_Inr [OF assms(1)] assms(2)
  have "(tile s, cell_w s, cell_h s) =
         cell_size (canvas_w s) (canvas_h s) (margin s) (border s) (spacing s) cols rows"
    by simp
  then show ?thesis
    by (auto simp: cell_size_def Let_def split: if_splits)
qed

text \<open>An instance of the contact-sheet case: the default form with the contact sheet selected.\<close>

theorem cell_floor_by_mode_witness:
  "gather_settings (default_form \<lparr> layout_row := 6 \<rparr>) None =
     Inr \<lparr> tile = [], cell_w = 406, cell_h = 406, border = 2, spacing = 4, margin = 20,
           bg = ''white'', border_color = ''black'', canvas_w = 2481, canvas_h = 3507, dpi = 300,
           fill = False, pdf = False \<rparr>
   \<and> snd (LAYOUTS ! 6) = (0, 0)
   \<and> (406::int) = (2481 - 2 * 20) div 6"
proof -
  let ?F = "default_form \<lparr> layout_row := 6 \<rparr>"
  let ?S = "\<lparr> tile = [], cell_w = 406, cell_h = 406, border = 2, spacing = 4, margin = 20,
           bg = ''white'', border_color = ''black'', canvas_w = 2481, canvas_h = 3507, dpi = 300,
           fill = False, pdf = False \<rparr>"
  have g: "gather_settings ?F None = Inr ?S" by code_simp
  have l: "snd (LAYOUTS ! layout_row ?F) = (0, 0)" by (simp add: LAYOUTS_def default_form_def)
  have l': "snd (LAYOUTS ! 6) = (0, 0)" by (simp add: LAYOUTS_def)
  from cell_floor_by_mode [OF g l] g l' show ?thesis by simp
qed

text \<open>
  Claim C2 as stated fails: a preview (72 DPI) of a contact sheet on 4 x 6 in paper with the
  default margin of 20 has cells of 41 pixels.
\<close>

theorem contact_sheet_preview_cell_counterexample:
  "gather_settings (default_form \<lparr> paper_row := 0, layout_row := 6 \<rparr>) (Some 72) =
     Inr \<lparr> tile = [], cell_w = 41, cell_h = 41, border = 2, spacing = 4, margin = 20,
           bg = ''white'', border_color = ''black'', canvas_w = 288, canvas_h = 432, dpi = 72,
           fill = False, pdf = False \<rparr>
   \<and> \<not> (64::int) \<le> 41"
  by code_simp

text \<open>
  Claim C3, as the code has it. For every paper, orientation and DPI choice of the form the
  settings are computed, and the canvas is
  \<open>\<lfloor>width_in * dpi\<rfloor>\<close> by \<open>\<lfloor>height_in * dpi\<rfloor>\<close> pixels, the paper's width and height
  swapped first when the orientation is landscape: the product is truncated, not rounded.
  The binary64 product of the code and the exact decimal product have the same integer part
  for every paper size and DPI.
\<close>

theorem canvas_truncated:
  assumes "paper_row w < 9" and "dpi_row w < 3" and "layout_row w < 7"
  shows "\<exists>s. gather_settings w None = Inr s
     \<and> dpi s = [150, 300, 600] ! dpi_row w
     \<and> (canvas_w s, canvas_h s) =
         (let (wi, hi) = paper_inches ! paper_row w;
              (wi', hi') = (if orient_row w = 1 then (hi, wi) else (wi, hi))
          in (\<lfloor>wi' * of_int (dpi s)\<rfloor>, \<lfloor>hi' * of_int (dpi s)\<rfloor>))"
proof -
  from gather_settings_total [OF assms(1) assms(3) select_dpi_None [OF assms(2)]]
  obtain s where s: "gather_settings w None = Inr s" by blast
  note g = gather_settings_Inr [OF s]
  from g have d: "dpi s = [150, 300, 600] ! dpi_row w"
    using select_dpi_None [OF assms(2)] by simp
  have dm: "dpi s \<in> {150, 300, 600, 72}"
    unfolding d by (rule dpi_choice [OF assms(2)])
  have "(canvas_w s, canvas_h s) =
         (let (wi, hi) = paper_inches ! paper_row w;
              (wi', hi') = (if orient_row w = 1 then (hi, wi) else (wi, hi))
          in (\<lfloor>wi' * of_int (dpi s)\<rfloor>, \<lfloor>hi' * of_int (dpi s)\<rfloor>))"
    using g canvas_px [OF assms(1) dm]
    by (simp add: paper_dims_def case_prod_beta Let_def)
  with s d show ?thesis by blast
qed

text \<open>An instance of C3: A4, portrait, 300 DPI.\<close>

theorem canvas_truncated_witness:
  "paper_row default_form < 9 \<and> dpi_row default_form < 3 \<and> layout_row default_form < 7
   \<and> (\<exists>s. gather_settings default_form None = Inr s \<and> dpi s = 300
          \<and> (canvas_w s, canvas_h s) = (2481, 3507))"
proof -
  have h: "paper_row default_form < 9" "dpi_row default_form < 3" "layout_row default_form < 7"
    by (simp_all add: default_form_def)
  from canvas_truncated [OF h] obtain s where
    s: "gather_settings default_form None = Inr s" "dpi s = [150, 300, 600] ! dpi_row default_form"
     "(canvas_w s, canvas_h s) =
         (let (wi, hi) = paper_inches ! paper_row default_form;
              (wi', hi') = (if orient_row default_form = 1 then (hi, wi) else (wi, hi))
          in (\<lfloor>wi' * of_int (dpi s)\<rfloor>, \<lfloor>hi' * of_int (dpi s)\<rfloor>))"
    by blast
  have d: "dpi s = 300" using s(2) by (simp add: default_form_def)
  have "(canvas_w s, canvas_h s) = (2481, 3507)"
    using s(3) unfolding d by (simp add: default_form_def paper_inches_def)
  with h s(1) d show ?thesis by blast
qed

text \<open>
  Claim C3 as stated fails: on A4 at 150 DPI the height in inches times the DPI is exactly
  1753.5, which rounds to 1754 (ties to even, and ties upwards as well), while the canvas
  height is 1753.
\<close>

theorem canvas_round_counterexample:
  "gather_settings (default_form \<lparr> dpi_row := 0 \<rparr>) None =
     Inr \<lparr> tile = ''2x2'', cell_w = 588, cell_h = 844, border = 2, spacing = 4, margin = 20,
           bg = ''white'', border_color = ''black'', canvas_w = 1240, canvas_h = 1753, dpi = 150,
           fill = False, pdf = False \<rparr>
   \<and> py_round (py_mul (float_literal (1169 / 100)) (PyInt 150)) = 1754
   \<and> round (1169 / 100 * 150 :: rat) = 1754
   \<and> snd (snd (PAPERS ! 3)) = float_literal (1169 / 100)"
  by code_simp

section \<open>Chunking\<close>

lemma digit_char_cases:
  assumes "d < 10"
  shows "d = 0 \<or> d = 1 \<or> d = 2 \<or> d = 3 \<or> d = 4 \<or> d = 5 \<or> d = 6 \<or> d = 7 \<or> d = 8 \<or> d = (9::nat)"
  using assms by arith

lemma digit_char_props:
  assumes "d < 10"
  shows "is_digit (digit_char d)" and "digit_value (digit_char d) = int d"
    and "\<not> py_isspace (digit_char d)" and "digit_char d \<noteq> CHR ''x''"
    and "digit_char d \<noteq> CHR ''-''" and "digit_char d \<noteq> CHR ''+''" and "digit_char d \<noteq> CHR ''_''"
  using digit_char_cases [OF assms]
  by (auto simp: digit_char_def is_digit_def digit_value_def py_isspace_def)

lemma digits10_nonempty: "digits10 n \<noteq> []"
  by (subst digits10.simps) simp

lemma digits10_chars: "c \<in> set (digits10 n) \<Longrightarrow> \<exists>d<10. c = digit_char d"
proof (induction n rule: digits10.induct)
  case (1 n)
  show ?case
  proof (cases "n < 10")
    case True
    with "1.prems" show ?thesis by (subst (asm) digits10.simps) auto
  next
    case False
    with "1.prems" have "c \<in> set (digits10 (n div 10)) \<or> c = digit_char (n mod 10)"
      by (subst (asm) digits10.simps) auto
    then show ?thesis
    proof
      assume "c \<in> set (digits10 (n div 10))"
      with "1.IH" False show ?thesis by blast
    next
      assume "c = digit_char (n mod 10)"
      moreover have "n mod 10 < 10" by simp
      ultimately show ?thesis by blast
    qed
  qed
qed

lemma digits_value_snoc: "digits_value (ds @ [c]) = 10 * digits_value ds + digit_value c"
  by (simp add: digits_value_def)

lemma digits_value_digits10: "digits_value (digits10 n) = int n"
proof (induction n rule: digits10.induct)
  case (1 n)
  show ?case
  proof (cases "n < 10")
    case True
    then show ?thesis
      by (subst digits10.simps) (simp add: digits_value_def digit_char_props)
  next
    case False
    have "n mod 10 < 10" by simp
    then have dv: "digit_value (digit_char (n mod 10)) = int (n mod 10)"
      by (rule digit_char_props)
    from False "1.IH" have "digits_value (digits10 (n div 10)) = int (n div 10)" by simp
    moreover have "int n = 10 * int (n div 10) + int (n mod 10)" by presburger
    ultimately show ?thesis
      using False dv by (subst digits10.simps) (simp add: digits_value_snoc)
  qed
qed

lemma valid_digits_all:
  assumes "ds \<noteq> []" and "\<forall>c \<in> set ds. is_digit c \<and> c \<noteq> CHR ''_''"
  shows "valid_digits ds"
  using assms by (induction ds rule: valid_digits.induct) auto

lemma py_strip_id:
  assumes "\<forall>c \<in> set s. \<not> py_isspace c"
  shows "py_strip s = s"
proof -
  have dw: "dropWhile py_isspace t = t" if "\<forall>c \<in> set t. \<not> py_isspace c" for t
    using that by (cases t) auto
  have "dropWhile py_isspace s = s" using dw assms by blast
  moreover have "dropWhile py_isspace (rev s) = rev s" using dw [of "rev s"] assms by simp
  ultimately show ?thesis by (simp add: py_strip_def)
qed

lemma digits10_facts:
  shows "\<forall>c \<in> set (digits10 n). \<not> py_isspace c"
    and "\<forall>c \<in> set (digits10 n). is_digit c \<and> c \<noteq> CHR ''_''"
    and "CHR ''x'' \<notin> set (digits10 n)"
    and "hd (digits10 n) \<noteq> CHR ''-'' \<and> hd (digits10 n) \<noteq> CHR ''+''"
    and "filter (\<lambda>c. c \<noteq> CHR ''_'') (digits10 n) = digits10 n"
proof -
  show a: "\<forall>c \<in> set (digits10 n). \<not> py_isspace c"
  proof
    fix c assume "c \<in> set (digits10 n)"
    then obtain d where "d < 10" "c = digit_char d" using digits10_chars by blast
    then show "\<not> py_isspace c" using digit_char_props(3) by simp
  qed
  show b: "\<forall>c \<in> set (digits10 n). is_digit c \<and> c \<noteq> CHR ''_''"
  proof
    fix c assume "c \<in> set (digits10 n)"
    then obtain d where "d < 10" "c = digit_char d" using digits10_chars by blast
    then show "is_digit c \<and> c \<noteq> CHR ''_''" using digit_char_props(1,7) by simp
  qed
  show "CHR ''x'' \<notin> set (digits10 n)"
  proof
    assume "CHR ''x'' \<in> set (digits10 n)"
    then obtain d where "d < 10" "CHR ''x'' = digit_char d" using digits10_chars by blast
    then show False using digit_char_props(4) [of d] by simp
  qed
  have "hd (digits10 n) \<in> set (digits10 n)"
    using digits10_nonempty by simp
  then obtain d where "d < 10" "hd (digits10 n) = digit_char d" using digits10_chars by blast
  then show "hd (digits10 n) \<noteq> CHR ''-'' \<and> hd (digits10 n) \<noteq> CHR ''+''"
    using digit_char_props(5,6) [of d] by simp
  from b show "filter (\<lambda>c. c \<noteq> CHR ''_'') (digits10 n) = digits10 n"
    by (simp add: filter_id_conv)
qed

lemma int_isspace_py_isspace: "int_isspace c \<Longrightarrow> py_isspace c"
  by (auto simp: int_isspace_def py_isspace_def)

lemma int_strip_id:
  assumes "\<forall>c \<in> set s. \<not> py_isspace c"
  shows "int_strip s = s"
proof -
  have ns: "\<forall>c \<in> set s. \<not> int_isspace c"
    using assms int_isspace_py_isspace by blast
  have dw: "dropWhile int_isspace t = t" if "\<forall>c \<in> set t. \<not> int_isspace c" for t
    using that by (cases t) auto
  have "dropWhile int_isspace s = s" using dw ns by blast
  moreover have "dropWhile int_isspace (rev s) = rev s" using dw [of "rev s"] ns by simp
  ultimately show ?thesis by (simp add: int_strip_def)
qed

lemma parse_int_digits10: "parse_int (digits10 n) = Inr (int n)"
proof -
  obtain c r where cr: "digits10 n = c # r"
    using digits10_nonempty by (cases "digits10 n") auto
  have hd: "c \<noteq> CHR ''-''" "c \<noteq> CHR ''+''"
    using digits10_facts(4) [of n] cr by simp_all
  have v: "valid_digits (digits10 n)"
    by (rule valid_digits_all [OF digits10_nonempty digits10_facts(2)])
  have s: "int_strip (digits10 n) = digits10 n"
    by (rule int_strip_id [OF digits10_facts(1)])
  show ?thesis
    unfolding parse_int_def s
    using hd v digits10_facts(5) [of n] digits_value_digits10 [of n]
    by (simp add: cr)
qed

lemma parse_int_py_str: "parse_int (py_str i) = Inr i"
proof (cases "i < 0")
  case False
  then show ?thesis by (simp add: py_str_def parse_int_digits10)
next
  case True
  let ?ds = "digits10 (nat (- i))"
  have sp: "\<forall>c \<in> set (CHR ''-'' # ?ds). \<not> py_isspace c"
    using digits10_facts(1) by (simp add: py_isspace_def)
  have v: "valid_digits ?ds"
    by (rule valid_digits_all [OF digits10_nonempty digits10_facts(2)])
  show ?thesis
    unfolding parse_int_def py_str_def
    using True v digits10_facts(5) [of "nat (- i)"] digits_value_digits10 [of "nat (- i)"]
    by (simp add: int_strip_id [OF sp])
qed

lemma split_on_none: "c \<notin> set s \<Longrightarrow> split_on c s = [s]"
  by (induction s) auto

lemma split_on_once:
  "c \<notin> set a \<Longrightarrow> c \<notin> set b \<Longrightarrow> split_on c (a @ c # b) = [a, b]"
  by (induction a) (auto simp: split_on_none)

lemma py_str_no_x: "CHR ''x'' \<notin> set (py_str i)"
  using digits10_facts(3) by (simp add: py_str_def)

lemma parse_tile_py_str: "parse_tile (py_str c @ ''x'' @ py_str r) = Inr (c, r)"
  using split_on_once [OF py_str_no_x py_str_no_x, of c r]
  by (simp add: parse_tile_def parse_int_py_str bind_err_def)

lemma py_str_nonempty: "py_str i \<noteq> []"
  by (simp add: py_str_def digits10_nonempty)

lemma parse_tile_py_str_Cons: "parse_tile (py_str c @ CHR ''x'' # py_str r) = Inr (c, r)"
  using parse_tile_py_str [of c r] by simp

lemma range_len_pos:
  assumes "0 < p"
  shows "range_len 0 (int n) (int p) = (n + p - 1) div p"
proof (cases n)
  case 0
  with assms show ?thesis by (simp add: range_len_def)
next
  case (Suc k)
  have a: "int (Suc k) - 0 - 1 = int k" by simp
  have b: "int k div int p = int (k div p)" by (rule zdiv_int [symmetric])
  have c: "nat (int (k div p) + 1) = Suc (k div p)" by simp
  have d: "(Suc k + p - 1) div p = Suc (k div p)" using assms by simp
  have "range_len 0 (int (Suc k)) (int p) = nat ((int (Suc k) - 0 - 1) div int p + 1)"
    unfolding range_len_def using assms by (simp del: of_nat_Suc)
  then show ?thesis unfolding Suc a b c d .
qed

lemma slice_chunk:
  assumes "k * p \<le> length xs"
  shows "py_slice xs (int k * int p) (int k * int p + int p) = take p (drop (k * p) xs)"
proof -
  have lo: "slice_bound (length xs) (int k * int p) = k * p"
    using assms by (simp add: slice_bound_def nat_mult_distrib flip: of_nat_mult)
  have "int k * int p + int p = int (k * p + p)" by simp
  then have hi: "slice_bound (length xs) (int k * int p + int p) = min (length xs) (k * p + p)"
    unfolding slice_bound_def by (simp del: of_nat_add of_nat_mult)
  show ?thesis
    unfolding py_slice_def lo hi Let_def
    by (cases "length xs \<le> k * p + p") (simp_all add: min_def)
qed

lemma chunks_bound:
  assumes "0 < p"
  shows "length xs \<le> ((length xs + p - 1) div p) * p"
    and "k < (length xs + p - 1) div p \<Longrightarrow> k * p < length xs"
proof -
  let ?n = "length xs" and ?m = "(length xs + p - 1) div p"
  have "(?n + p - 1) mod p < p" using assms by simp
  moreover have "?m * p + (?n + p - 1) mod p = ?n + p - 1" by simp
  ultimately show "?n \<le> ?m * p" by linarith
  assume "k < ?m"
  then have "Suc k \<le> ?m" by simp
  then have "Suc k * p \<le> ?m * p" by (rule mult_le_mono1)
  also have "?m * p \<le> ?n + p - 1" by (rule div_times_less_eq_dividend)
  finally show "k * p < ?n" using assms by simp
qed

lemma py_range_pos:
  assumes "0 < p"
  shows "py_range 0 (int n) (int p) = Inr (map (\<lambda>k. int k * int p) [0..<(n + p - 1) div p])"
  using assms by (simp add: py_range_def range_len_pos)

lemma chunk_images_nat:
  assumes "tile s = py_str c @ ''x'' @ py_str r" and "c * r = int p" and "0 < p"
  shows "chunk_images imgs s =
           Inr (map (\<lambda>k. take p (drop (k * p) imgs)) [0..<(length imgs + p - 1) div p])"
proof -
  let ?m = "(length imgs + p - 1) div p"
  have ne: "tile s \<noteq> []" using assms(1) by simp
  have sl: "map (\<lambda>i. py_slice imgs i (i + int p)) (map (\<lambda>k. int k * int p) [0..<?m]) =
            map (\<lambda>k. take p (drop (k * p) imgs)) [0..<?m]"
    unfolding map_map comp_def
  proof (rule map_cong [OF refl])
    fix k assume "k \<in> set [0..<?m]"
    then have "k < ?m" by simp
    from chunks_bound(2) [OF assms(3) this] have "k * p \<le> length imgs" by simp
    then show "py_slice imgs (int k * int p) (int k * int p + int p) = take p (drop (k * p) imgs)"
      by (rule slice_chunk)
  qed
  have "chunk_images imgs s =
      bind_err (py_range 0 (int (length imgs)) (int p))
        (\<lambda>starts. Inr (map (\<lambda>i. py_slice imgs i (i + int p)) starts))"
    unfolding chunk_images_def
    using ne by (simp add: assms(1,2) parse_tile_py_str_Cons bind_err_def Let_def cong: sum.case_cong)
  also have "\<dots> = Inr (map (\<lambda>k. take p (drop (k * p) imgs)) [0..<?m])"
    unfolding py_range_pos [OF assms(3)] by (simp only: bind_err_def sum.case sl)
  finally show ?thesis .
qed

lemma concat_chunks:
  "concat (map (\<lambda>k. take p (drop (k * p) xs)) [0..<m]) = take (m * p) xs"
proof (induction m)
  case 0
  show ?case by simp
next
  case (Suc m)
  have "take (m * p) xs @ take p (drop (m * p) xs) = take (m * p + p) xs"
    by (simp add: take_add)
  with Suc show ?case by (simp add: add.commute)
qed

lemma ceiling_chunks:
  assumes "0 < p"
  shows "int ((n + p - 1) div p) = \<lceil>rat_of_nat n / rat_of_int (int p)\<rceil>"
proof -
  let ?m = "(n + p - 1) div p"
  have up: "n \<le> ?m * p"
    using chunks_bound(1) [OF assms, of "replicate n ()"] by simp
  have lo: "?m * p < n + p"
  proof -
    have "?m * p \<le> n + p - 1" by (rule div_times_less_eq_dividend)
    with assms show ?thesis by linarith
  qed
  have pp: "0 < rat_of_nat p" using assms by simp
  have "rat_of_nat n / rat_of_nat p \<le> rat_of_nat ?m"
    using up pp by (simp add: pos_divide_le_eq flip: of_nat_mult)
  moreover have "rat_of_nat ?m - 1 < rat_of_nat n / rat_of_nat p"
  proof -
    have "rat_of_nat (?m * p) < rat_of_nat (n + p)" using lo by (simp only: of_nat_less_iff)
    then have "(rat_of_nat ?m - 1) * rat_of_nat p < rat_of_nat n"
      by (simp add: algebra_simps)
    then show ?thesis using pp by (simp add: pos_less_divide_eq)
  qed
  ultimately have "\<lceil>rat_of_nat n / rat_of_nat p\<rceil> = int ?m"
    by (intro ceiling_unique) simp_all
  then show ?thesis by simp
qed

lemma gathered_contact_sheet_tile:
  assumes "gather_settings w ov = Inr s" and "snd (LAYOUTS ! layout_row w) = (0, 0)"
  shows "tile s = []"
proof -
  from gather_settings_Inr [OF assms(1)] assms(2)
  have "(tile s, cell_w s, cell_h s) =
         cell_size (canvas_w s) (canvas_h s) (margin s) (border s) (spacing s) 0 0"
    by simp
  then show ?thesis by (simp add: cell_size_def Let_def)
qed

text \<open>
  Claim C4. For settings whose tile spec is the string of \<open>c\<close>, an \<open>x\<close> and \<open>r\<close> with
  \<open>c, r \<ge> 1\<close>, chunking returns a list of chunks whose concatenation is the image list; there
  are \<open>\<lceil>length imgs / (c * r)\<rceil>\<close> of them; the \<open>k\<close>-th is the \<open>c * r\<close> imgs from position
  \<open>k * c * r\<close> on; every chunk but the last has exactly \<open>c * r\<close> imgs, and the last has between
  one and \<open>c * r\<close>.
\<close>

theorem chunk_images_partition:
  assumes "1 \<le> c" and "1 \<le> r" and "tile s = py_str c @ ''x'' @ py_str r"
  shows "\<exists>chunks. chunk_images imgs s = Inr chunks
     \<and> concat chunks = imgs
     \<and> int (length chunks) = \<lceil>rat_of_nat (length imgs) / rat_of_int (c * r)\<rceil>
     \<and> (\<forall>k < length chunks.
           chunks ! k = take (nat (c * r)) (drop (k * nat (c * r)) imgs)
         \<and> 0 < length (chunks ! k) \<and> int (length (chunks ! k)) \<le> c * r
         \<and> (Suc k < length chunks \<longrightarrow> int (length (chunks ! k)) = c * r))"
proof -
  have "0 < c * r" using assms(1,2) by simp
  then obtain p where p: "c * r = int p" "0 < p"
    using zero_less_imp_eq_int by blast
  let ?m = "(length imgs + p - 1) div p"
  let ?cs = "map (\<lambda>k. take p (drop (k * p) imgs)) [0..<?m]"
  have cs: "chunk_images imgs s = Inr ?cs"
    by (rule chunk_images_nat [OF assms(3) p])
  have cc: "concat ?cs = imgs"
    using chunks_bound(1) [OF p(2), of imgs] by (simp add: concat_chunks)
  have len: "int (length ?cs) = \<lceil>rat_of_nat (length imgs) / rat_of_int (c * r)\<rceil>"
    unfolding p(1) using ceiling_chunks [OF p(2), of "length imgs"] by simp
  have el: "?cs ! k = take p (drop (k * p) imgs)
         \<and> 0 < length (?cs ! k) \<and> int (length (?cs ! k)) \<le> int p
         \<and> (Suc k < length ?cs \<longrightarrow> int (length (?cs ! k)) = int p)"
    if "k < length ?cs" for k
  proof -
    from that have k: "k < ?m" by simp
    then have nth: "?cs ! k = take p (drop (k * p) imgs)" by simp
    from chunks_bound(2) [OF p(2) k] have lt: "k * p < length imgs" .
    have full: "length (?cs ! k) = p" if "Suc k < ?m"
    proof -
      from chunks_bound(2) [OF p(2) that] have "k * p + p < length imgs" by simp
      then show ?thesis unfolding nth by simp
    qed
    from lt p(2) have "0 < length (?cs ! k)" unfolding nth by simp
    moreover have "length (?cs ! k) \<le> p" unfolding nth by simp
    ultimately show ?thesis using nth full by simp
  qed
  show ?thesis
    unfolding p(1) nat_int using cs cc len [unfolded p(1)] el by blast
qed

text \<open>
  Claim C5. When the tile spec is empty (the contact sheet), chunking returns exactly one
  chunk, the whole image list in its order, whatever its length; the settings gathered from a
  form whose layout is the contact sheet are of that kind.
\<close>

theorem contact_sheet_single_chunk:
  "(tile s = [] \<longrightarrow> chunk_images imgs s = Inr [imgs])
   \<and> (gather_settings w ov = Inr s \<and> snd (LAYOUTS ! layout_row w) = (0, 0) \<longrightarrow>
        chunk_images imgs s = Inr [imgs])"
  using gathered_contact_sheet_tile [of w ov s] by (auto simp: chunk_images_def)

text \<open>
  Claim C6, as the code has it. With a concrete tile spec an empty image list gives no chunk
  at all; in contact-sheet mode it gives one chunk, which is empty.
\<close>

theorem chunk_images_empty:
  "(1 \<le> c \<and> 1 \<le> r \<and> tile s = py_str c @ ''x'' @ py_str r \<longrightarrow> chunk_images [] s = Inr [])
   \<and> (tile s = [] \<longrightarrow> chunk_images [] s = Inr [[]])"
proof -
  have "chunk_images [] s = Inr []" if "1 \<le> c" "1 \<le> r" "tile s = py_str c @ ''x'' @ py_str r"
  proof -
    have "0 < c * r" using that(1,2) by simp
    then have p: "c * r = int (nat (c * r))" "0 < nat (c * r)" by simp_all
    show ?thesis
      using chunk_images_nat [OF that(3) p, of "[]"] p(2) by simp
  qed
  then show ?thesis by (auto simp: chunk_images_def)
qed

lemma gather_default: "gather_settings default_form None = Inr default_settings"
  by code_simp

lemma gather_contact: "gather_settings (default_form \<lparr> layout_row := 6 \<rparr>) None = Inr contact_settings"
  by code_simp

text \<open>An instance of C4: nine imgs on a 2 x 2 grid give chunks of four, four and one.\<close>

theorem chunk_images_partition_witness:
  "(1::int) \<le> 2 \<and> tile default_settings = py_str 2 @ ''x'' @ py_str 2
   \<and> (\<exists>chunks. chunk_images [''a.jpg'', ''b.jpg'', ''c.jpg'', ''d.jpg'', ''e.jpg'', ''f.jpg'', ''g.jpg'', ''h.jpg'', ''i.jpg''] default_settings
                  = Inr chunks
        \<and> concat chunks = [''a.jpg'', ''b.jpg'', ''c.jpg'', ''d.jpg'', ''e.jpg'', ''f.jpg'', ''g.jpg'', ''h.jpg'', ''i.jpg'']
        \<and> length chunks = 3
        \<and> chunks ! 0 = [''a.jpg'', ''b.jpg'', ''c.jpg'', ''d.jpg'']
        \<and> chunks ! 1 = [''e.jpg'', ''f.jpg'', ''g.jpg'', ''h.jpg'']
        \<and> chunks ! 2 = [''i.jpg''])"
proof -
  let ?imgs = "[''a.jpg'', ''b.jpg'', ''c.jpg'', ''d.jpg'', ''e.jpg'', ''f.jpg'', ''g.jpg'', ''h.jpg'', ''i.jpg'']"
  have h: "(1::int) \<le> 2" by simp
  have t: "tile default_settings = py_str 2 @ ''x'' @ py_str 2" by code_simp
  from chunk_images_partition [OF h h t, of ?imgs] obtain chunks where
    c: "chunk_images ?imgs default_settings = Inr chunks" "concat chunks = ?imgs"
       "int (length chunks) = \<lceil>rat_of_nat (length ?imgs) / rat_of_int (2 * 2)\<rceil>"
       "\<forall>k < length chunks. chunks ! k = take (nat (2 * 2)) (drop (k * nat (2 * 2)) ?imgs)"
    by blast
  have "\<lceil>rat_of_nat (length ?imgs) / rat_of_int (2 * 2)\<rceil> = 3"
    by (simp add: ceiling_eq_iff)
  with c(3) have l: "length chunks = 3" by simp
  with c(4) have "chunks ! 0 = [''a.jpg'', ''b.jpg'', ''c.jpg'', ''d.jpg'']"
    "chunks ! 1 = [''e.jpg'', ''f.jpg'', ''g.jpg'', ''h.jpg'']" "chunks ! 2 = [''i.jpg'']"
    by simp_all
  with h t c(1,2) l show ?thesis by blast
qed

text \<open>An instance of C5: three imgs, the default form with the contact sheet selected.\<close>

theorem contact_sheet_single_chunk_witness:
  "tile contact_settings = []
   \<and> gather_settings (default_form \<lparr> layout_row := 6 \<rparr>) None = Inr contact_settings
   \<and> snd (LAYOUTS ! layout_row (default_form \<lparr> layout_row := 6 \<rparr>)) = (0, 0)
   \<and> chunk_images [''a'', ''b'', ''c''] contact_settings = Inr [[''a'', ''b'', ''c'']]"
proof -
  have t: "tile contact_settings = []" by (simp add: contact_settings_def)
  have l: "snd (LAYOUTS ! layout_row (default_form \<lparr> layout_row := 6 \<rparr>)) = (0, 0)"
    by (simp add: LAYOUTS_def)
  from contact_sheet_single_chunk [of contact_settings "[''a'', ''b'', ''c'']"
      "default_form \<lparr> layout_row := 6 \<rparr>" None] t gather_contact l
  show ?thesis by blast
qed

text \<open>Instances of both cases of C6.\<close>

theorem chunk_images_empty_witness:
  "(1::int) \<le> 2 \<and> tile default_settings = py_str 2 @ ''x'' @ py_str 2
   \<and> chunk_images ([] :: string list) default_settings = Inr []
   \<and> tile contact_settings = []
   \<and> chunk_images ([] :: string list) contact_settings = Inr [[]]"
proof -
  have h: "(1::int) \<le> 2" by simp
  have t: "tile default_settings = py_str 2 @ ''x'' @ py_str 2" by code_simp
  have t': "tile contact_settings = []" by (simp add: contact_settings_def)
  from chunk_images_empty [of 2 2 default_settings] h t
  have a: "chunk_images ([] :: string list) default_settings = Inr []" by blast
  from chunk_images_empty [of 2 2 contact_settings] t'
  have b: "chunk_images ([] :: string list) contact_settings = Inr [[]]" by blast
  from h t a t' b show ?thesis by blast
qed

text \<open>
  Claim C6 as stated fails in contact-sheet mode: the empty image list gives a sequence of one
  chunk, not of zero chunks.
\<close>

theorem chunk_images_empty_contact_sheet_counterexample:
  "chunk_images ([] :: string list)
     \<lparr> tile = [], cell_w = 406, cell_h = 406, border = 2, spacing = 4,
       margin = 20, bg = ''white'', border_color = ''black'', canvas_w = 2481, canvas_h = 3507,
       dpi = 300, fill = False, pdf = False \<rparr> = Inr [[]]
   \<and> length [[] :: string list] = 1"
  by (simp add: chunk_images_def)

section \<open>Rendering requests\<close>

lemma quiet_simps [simp]:
  "quiet []" "quiet (cs @ ds) \<longleftrightarrow> quiet cs \<and> quiet ds" "quiet [c] \<longleftrightarrow> returncode (snd c) = 0"
  by (auto simp: quiet_def)

lemma ends_in_failure_append:
  "quiet cs \<Longrightarrow> ends_in_failure ds t \<Longrightarrow> ends_in_failure (cs @ ds) t"
  by (auto simp: ends_in_failure_def butlast_append)

lemma outcome_refl: "outcome w (Inr x, w)"
  by (simp add: outcome_def)

lemma outcome_raise: "\<not> (\<exists>c rc t. err = CalledProcessError c rc t) \<Longrightarrow> outcome w (Inl err, w)"
  by (cases err) (auto simp: outcome_def)

lemma outcome_trans:
  assumes "outcome w (Inr x, w1)" and "outcome w1 (res, w2)"
  shows "outcome w (res, w2)"
proof -
  from assms(1) obtain n1 where n1: "calls w1 = calls w @ n1" "toasts w1 = toasts w"
      "images w1 = images w" "quiet n1"
    by (auto simp: outcome_def)
  from assms(2) obtain n2 where n2: "calls w2 = calls w1 @ n2" "toasts w2 = toasts w1"
      "images w2 = images w1"
      "case res of Inl (CalledProcessError c rc err_text) \<Rightarrow> ends_in_failure n2 err_text
            | _ \<Rightarrow> quiet n2"
    by (auto simp: outcome_def)
  have "case res of Inl (CalledProcessError c rc err_text) \<Rightarrow> ends_in_failure (n1 @ n2) err_text
            | _ \<Rightarrow> quiet (n1 @ n2)"
    using n1(4) n2(4) by (auto split: sum.splits py_error.splits intro: ends_in_failure_append)
  with n1 n2 show ?thesis
    unfolding outcome_def by (intro exI [of _ "n1 @ n2"]) simp
qed

lemma outcome_run: "outcome w (run e cmd inp w)"
  by (simp add: run_def outcome_def Let_def ends_in_failure_def)

lemma outcome_run_montage: "outcome w (run_montage e imgs s dest w)"
proof (cases "run e (cmd1 imgs s) [] w")
  case (Pair r1 w1)
  note first = outcome_run [of w e "cmd1 imgs s" "[]", unfolded Pair]
  show ?thesis
  proof (cases r1)
    case (Inl err)
    with Pair first show ?thesis by (simp add: run_montage_def outcome_def)
  next
    case (Inr p1)
    obtain r2 w2 where second: "run e (cmd2 s dest) (stdout p1) w1 = (r2, w2)"
      by (cases "run e (cmd2 s dest) (stdout p1) w1")
    from outcome_run [of w1 e "cmd2 s dest" "stdout p1", unfolded second]
    have o2: "outcome w1 (r2, w2)" .
    from outcome_trans [OF first [unfolded Inr] o2] have o: "outcome w (r2, w2)" .
    show ?thesis
    proof (cases r2)
      case (Inl err)
      with o Pair \<open>r1 = Inr p1\<close> second show ?thesis by (simp add: run_montage_def outcome_def)
    next
      case (Inr p2)
      with o have "outcome w (Inr (), w2)" by (simp add: outcome_def)
      with Pair \<open>r1 = Inr p1\<close> second Inr show ?thesis by (simp add: run_montage_def)
    qed
  qed
qed

lemma outcome_render_pages:
  "outcome w (render_pages e s pat i chunks paths w)"
proof (induction chunks arbitrary: i paths w)
  case Nil
  show ?case by (simp add: outcome_refl)
next
  case (Cons chunk rest)
  obtain r1 w1 where m: "run_montage e chunk s (pat (i + 1)) w = (r1, w1)"
    by (cases "run_montage e chunk s (pat (i + 1)) w")
  from outcome_run_montage [of w e chunk s "pat (i + 1)", unfolded m]
  have o1: "outcome w (r1, w1)" .
  show ?case
  proof (cases r1)
    case (Inl err)
    with o1 m show ?thesis by (simp add: outcome_def)
  next
    case (Inr u)
    from outcome_trans [OF o1 [unfolded Inr]] Cons.IH [of w1 "i + 1" "paths @ [pat (i + 1)]"]
    have "outcome w (render_pages e s pat (i + 1) rest (paths @ [pat (i + 1)]) w1)"
      by (cases "render_pages e s pat (i + 1) rest (paths @ [pat (i + 1)]) w1") auto
    with m Inr show ?thesis by simp
  qed
qed

lemma chunk_images_error:
  "chunk_images imgs s = Inl err \<Longrightarrow> err = ValueError"
  by (auto simp: chunk_images_def parse_tile_def bind_err_def py_range_def parse_int_def Let_def
      split: if_splits sum.splits list.splits prod.splits)

lemma outcome_run_all_pages: "outcome w (run_all_pages e s pat w)"
proof (cases "chunk_images (images w) s")
  case (Inl err)
  then have "err = ValueError" by (rule chunk_images_error)
  with Inl show ?thesis by (simp add: run_all_pages_def outcome_raise)
next
  case (Inr chunks)
  then show ?thesis by (simp add: run_all_pages_def outcome_render_pages)
qed

lemma with_name_error: "with_name p n = Inl err \<Longrightarrow> err = ValueError"
  by (auto simp: with_name_def split: if_splits)

lemma outcome_save_numbered:
  "outcome w (save_numbered e s p stem ext i chunks w)"
proof (induction chunks arbitrary: i w)
  case Nil
  show ?case by (simp add: outcome_refl)
next
  case (Cons chunk rest)
  show ?case
  proof (cases "with_name p (stem @ ''-'' @ py_str i @ ext)")
    case (Inl err)
    then have "err = ValueError" by (rule with_name_error)
    with Inl show ?thesis by (simp add: outcome_raise)
  next
    case (Inr out)
    obtain r1 w1 where m: "run_montage e chunk s out w = (r1, w1)"
      by (cases "run_montage e chunk s out w")
    from outcome_run_montage [of w e chunk s out, unfolded m]
    have o1: "outcome w (r1, w1)" .
    show ?thesis
    proof (cases r1)
      case (Inl err)
      with o1 m \<open>with_name p (stem @ ''-'' @ py_str i @ ext) = Inr out\<close> show ?thesis
        by (simp add: outcome_def)
    next
      case (Inr u)
      from outcome_trans [OF o1 [unfolded Inr]] Cons.IH [of w1 "i + 1"]
      have "outcome w (save_numbered e s p stem ext (i + 1) rest w1)"
        by (cases "save_numbered e s p stem ext (i + 1) rest w1") auto
      with m Inr \<open>with_name p (stem @ ''-'' @ py_str i @ ext) = Inr out\<close> show ?thesis by simp
    qed
  qed
qed

lemma outcome_cases:
  assumes "outcome w (res, w')"
  obtains (quiet) new where "calls w' = calls w @ new" "quiet new" "toasts w' = toasts w"
      "\<not> (\<exists>c rc t. res = Inl (CalledProcessError c rc t))"
  | (failed) new c rc t where "calls w' = calls w @ new" "ends_in_failure new t"
      "toasts w' = toasts w" "res = Inl (CalledProcessError c rc t)"
proof -
  from assms obtain new where n: "calls w' = calls w @ new" "toasts w' = toasts w"
    and c: "case res of Inl (CalledProcessError c rc t) \<Rightarrow> ends_in_failure new t
            | _ \<Rightarrow> quiet new"
    by (auto simp: outcome_def)
  show thesis
  proof (cases res)
    case (Inr x)
    with n c show ?thesis by (intro quiet [of new]) auto
  next
    case (Inl err)
    show ?thesis
    proof (cases err)
      case (CalledProcessError c rc t)
      with Inl n c show ?thesis by (intro failed [of new t c rc]) auto
    next
      case IndexError
      with Inl n c show ?thesis by (intro quiet [of new]) auto
    next
      case KeyError
      with Inl n c show ?thesis by (intro quiet [of new]) auto
    next
      case ValueError
      with Inl n c show ?thesis by (intro quiet [of new]) auto
    qed
  qed
qed

lemma quiet_nth: "quiet new \<Longrightarrow> k < length new \<Longrightarrow> returncode (snd (new ! k)) = 0"
  by (simp add: quiet_def)

lemma failure_position:
  assumes "ends_in_failure new t" and "k < length new" and "returncode (snd (new ! k)) \<noteq> 0"
  shows "Suc k = length new \<and> t = stderr (snd (new ! k))"
proof -
  from assms(1) have ne: "new \<noteq> []" and q: "quiet (butlast new)"
    and t: "t = stderr (snd (last new))"
    by (simp_all add: ends_in_failure_def)
  have "\<not> k < length new - 1"
  proof
    assume "k < length new - 1"
    then have "k < length (butlast new)" by simp
    from quiet_nth [OF q this] have "returncode (snd (butlast new ! k)) = 0" .
    with \<open>k < length (butlast new)\<close> assms(3) show False by (simp add: nth_butlast)
  qed
  with assms(2) have k: "k = length new - 1" by simp
  with ne have "last new = new ! k" by (simp add: last_conv_nth)
  with k t ne show ?thesis by simp
qed

lemma save_body_outcome:
  assumes "save_body e dest s chunks w = (res, w')"
  shows "(\<exists>u. res = Inr u \<and> (\<exists>new. calls w' = calls w @ new \<and> quiet new))
       \<or> (\<exists>err. res = Inl err \<and> outcome w (res, w'))"
proof -
  have done_ok: "\<exists>new. calls (close_preview (add_toast msg w1)) = calls w @ new \<and> quiet new"
    if "outcome w (Inr x, w1)" for msg w1 and x :: 'x
    using that by (auto simp: outcome_def close_preview_def add_toast_def)
  consider (pdf) "pdf s" | (one) "\<not> pdf s" "length chunks = 1" | (many) "\<not> pdf s" "length chunks \<noteq> 1"
    by blast
  then show ?thesis
  proof cases
    case pdf
    let ?pat = "page_pattern (mkdtemp e ''photogrid_pdf_'')"
    obtain r1 w1 where a: "run_all_pages e s ?pat w = (r1, w1)"
      by (cases "run_all_pages e s ?pat w")
    from outcome_run_all_pages [of w e s ?pat, unfolded a] have o1: "outcome w (r1, w1)" .
    show ?thesis
    proof (cases r1)
      case (Inl err)
      with assms pdf a o1 show ?thesis
        by (auto simp: save_body_def Let_def outcome_def)
    next
      case (Inr page_files)
      let ?cmd = "[''magick''] @ page_files
                           @ [''-units'', ''PixelsPerInch'', ''-density'', py_str (dpi s),
                              if \<not> endswith (py_lower dest) ''.pdf'' then dest @ ''.pdf'' else dest]"
      obtain r2 w2 where b: "run e ?cmd [] w1 = (r2, w2)"
        by (cases "run e ?cmd [] w1")
      from outcome_trans [OF o1 [unfolded Inr] outcome_run [of w1 e ?cmd "[]", unfolded b]]
      have o2: "outcome w (r2, w2)" .
      show ?thesis
      proof (cases r2)
        case (Inl err)
        with assms pdf a \<open>r1 = Inr page_files\<close> b o2 show ?thesis
          by (auto simp: save_body_def Let_def outcome_def)
      next
        case (Inr pr)
        with assms pdf a \<open>r1 = Inr page_files\<close> b done_ok [OF o2 [unfolded Inr]] show ?thesis
          by (auto simp: save_body_def Let_def)
      qed
    qed
  next
    case one
    obtain r1 w1 where a: "run_montage e (chunks ! 0) s dest w = (r1, w1)"
      by (cases "run_montage e (chunks ! 0) s dest w")
    from outcome_run_montage [of w e "chunks ! 0" s dest, unfolded a] have o1: "outcome w (r1, w1)" .
    show ?thesis
    proof (cases r1)
      case (Inl err)
      with assms one a o1 show ?thesis by (auto simp: save_body_def)
    next
      case (Inr u)
      with assms one a done_ok [OF o1 [unfolded Inr]] show ?thesis
        by (auto simp: save_body_def)
    qed
  next
    case many
    let ?ext = "if path_suffix dest = [] then ''.jpg'' else path_suffix dest"
    obtain r1 w1 where a: "save_numbered e s dest (path_stem dest) ?ext 1 chunks w = (r1, w1)"
      by (cases "save_numbered e s dest (path_stem dest) ?ext 1 chunks w")
    from outcome_save_numbered [of w e s dest "path_stem dest" ?ext 1 chunks, unfolded a]
    have o1: "outcome w (r1, w1)" .
    show ?thesis
    proof (cases r1)
      case (Inl err)
      with assms many a o1 show ?thesis by (auto simp: save_body_def Let_def)
    next
      case (Inr u)
      with assms many a done_ok [OF o1 [unfolded Inr]] show ?thesis
        by (auto simp: save_body_def Let_def)
    qed
  qed
qed

lemma handled_quiet: "calls w' = calls w @ new \<Longrightarrow> quiet new \<Longrightarrow> handled w (res, w')"
  by (auto simp: handled_def)

lemma handled_outcome:
  assumes "outcome w (r, w1)"
    and "\<And>c rc t. r = Inl (CalledProcessError c rc t) \<Longrightarrow>
           res = Inr () \<and> w' = add_toast (''Error: '' @ error_excerpt t) w1"
    and "\<not> (\<exists>c rc t. r = Inl (CalledProcessError c rc t)) \<Longrightarrow> calls w' = calls w1"
  shows "handled w (res, w')"
  using assms(1)
proof (cases rule: outcome_cases)
  case (quiet new)
  with assms(3) show ?thesis by (auto intro: handled_quiet)
next
  case (failed new c rc t)
  with assms(2) [OF failed(4)] show ?thesis
    by (auto simp: handled_def add_toast_def)
qed

lemma handled_on_preview: "handled w (on_preview e f w)"
proof (cases "check_ready e w")
  case (Pair ready w0)
  show ?thesis
  proof (cases ready)
    case False
    with Pair have "calls w0 = calls w @ []"
      by (auto simp: check_ready_def add_toast_def split: if_splits)
    with Pair False show ?thesis
      by (auto simp: on_preview_def intro: handled_quiet)
  next
    case True
    with Pair have w0: "w0 = w" by (auto simp: check_ready_def split: if_splits)
    show ?thesis
    proof (cases "gather_settings f (Some 72)")
      case (Inl err)
      with Pair True w0 show ?thesis
        by (auto simp: on_preview_def intro: handled_quiet [of _ _ "[]"])
    next
      case (Inr s)
      let ?pat = "page_pattern (mkdtemp e ''photogrid_'')"
      obtain r1 w1 where a: "run_all_pages e s ?pat w = (r1, w1)"
        by (cases "run_all_pages e s ?pat w")
      from outcome_run_all_pages [of w e s ?pat, unfolded a] have o1: "outcome w (r1, w1)" .
      obtain res w' where res: "on_preview e f w = (res, w')" by (cases "on_preview e f w")
      have "handled w (res, w')"
      proof (rule handled_outcome [OF o1])
        fix c rc t assume "r1 = Inl (CalledProcessError c rc t)"
        with res Pair True w0 Inr a
        show "res = Inr () \<and> w' = add_toast (''Error: '' @ error_excerpt t) w1"
          by (auto simp: on_preview_def Let_def)
      next
        assume "\<not> (\<exists>c rc t. r1 = Inl (CalledProcessError c rc t))"
        with res Pair True w0 Inr a show "calls w' = calls w1"
          by (auto simp: on_preview_def Let_def show_preview_def
              split: sum.splits py_error.splits if_splits)
      qed
      with res show ?thesis by simp
    qed
  qed
qed

lemma handled_on_save_ready: "handled w (on_save_ready e dest_opt s w)"
proof (cases dest_opt)
  case None
  then show ?thesis by (auto simp: on_save_ready_def intro: handled_quiet [of _ _ "[]"])
next
  case (Some dest)
  show ?thesis
  proof (cases "chunk_images (images w) s")
    case (Inl err)
    with Some show ?thesis by (auto simp: on_save_ready_def intro: handled_quiet [of _ _ "[]"])
  next
    case (Inr chunks)
    obtain r1 w1 where a: "save_body e dest s chunks w = (r1, w1)"
      by (cases "save_body e dest s chunks w")
    obtain res w' where res: "on_save_ready e dest_opt s w = (res, w')"
      by (cases "on_save_ready e dest_opt s w")
    from save_body_outcome [OF a] have "handled w (res, w')"
    proof
      assume "\<exists>u. r1 = Inr u \<and> (\<exists>new. calls w1 = calls w @ new \<and> quiet new)"
      with res Some Inr a show ?thesis
        by (auto simp: on_save_ready_def intro: handled_quiet)
    next
      assume "\<exists>err. r1 = Inl err \<and> outcome w (r1, w1)"
      then have o1: "outcome w (r1, w1)" and l: "\<exists>err. r1 = Inl err" by auto
      show ?thesis
      proof (rule handled_outcome [OF o1])
        fix c rc t assume "r1 = Inl (CalledProcessError c rc t)"
        with res Some Inr a
        show "res = Inr () \<and> w' = add_toast (''Error: '' @ error_excerpt t) w1"
          by (auto simp: on_save_ready_def)
      next
        assume "\<not> (\<exists>c rc t. r1 = Inl (CalledProcessError c rc t))"
        with res Some Inr a l show "calls w' = calls w1"
          by (auto simp: on_save_ready_def split: sum.splits py_error.splits)
      qed
    qed
    with res show ?thesis by simp
  qed
qed

text \<open>
  Claim C7. In a preview or a save request, if any subprocess started by the request (the
  compose stage or the fit-to-canvas stage of a page, or the document merge) exits with a
  non-zero status, then it is the last subprocess of the request: nothing is started after
  it, so no later page is rendered and nothing is retried. The handler returns normally and
  shows one toast, \<^verbatim>\<open>Error: \<close> followed by the stripped stderr of that subprocess cut to at
  most 120 characters.
\<close>

theorem abort_at_first_failure:
  assumes "on_preview e f w = (res, w') \<or> on_save_ready e dest_opt s w = (res, w')"
    and "k < length (calls w') - length (calls w)"
    and "returncode (snd (calls w' ! (length (calls w) + k))) \<noteq> 0"
  shows "take (length (calls w)) (calls w') = calls w
       \<and> length (calls w') = length (calls w) + Suc k
       \<and> res = Inr ()
       \<and> toasts w' = toasts w @
           [''Error: '' @ take 120 (py_strip (stderr (snd (calls w' ! (length (calls w) + k)))))]
       \<and> length (take 120 (py_strip (stderr (snd (calls w' ! (length (calls w) + k)))))) \<le> 120"
proof -
  from assms(1) handled_on_preview [of w e f] handled_on_save_ready [of w e dest_opt s]
  have "handled w (res, w')" by auto
  then obtain new where new: "calls w' = calls w @ new"
    and alt: "quiet new \<or> (\<exists>t. ends_in_failure new t \<and> res = Inr ()
                 \<and> toasts w' = toasts w @ [''Error: '' @ error_excerpt t])"
    by (auto simp: handled_def)
  from new assms(2) have k: "k < length new" by simp
  from new have nth: "calls w' ! (length (calls w) + k) = new ! k" by (simp add: nth_append)
  from assms(3) have bad: "returncode (snd (new ! k)) \<noteq> 0" by (simp add: nth)
  from quiet_nth [OF _ k] bad have "\<not> quiet new" by blast
  with alt obtain t where t: "ends_in_failure new t" "res = Inr ()"
      "toasts w' = toasts w @ [''Error: '' @ error_excerpt t]"
    by blast
  from failure_position [OF t(1) k bad] have "Suc k = length new" "t = stderr (snd (new ! k))"
    by simp_all
  with new t(2,3) show ?thesis
    by (simp add: nth error_excerpt_def)
qed

lemma failing_preview_run:
  "(let r = on_preview (failing_env 2) default_form (start_window five_images)
    in (fst r, length (calls (snd r)), returncode (snd (calls (snd r) ! 2)),
        stderr (snd (calls (snd r) ! 2)), toasts (snd r)))
   = (Inr (), 3, 1, '' montage: unable to open image  '',
      [''Error: montage: unable to open image''])"
  by code_simp

text \<open>
  An instance of C7: a preview of five images on a 2 x 2 grid (two pages) where the compose
  stage of the second page fails. Three subprocesses were started, not four.
\<close>

theorem abort_at_first_failure_witness:
  "length (calls (snd (on_preview (failing_env 2) default_form (start_window five_images)))) = 3
   \<and> returncode (snd (calls (snd (on_preview (failing_env 2) default_form
        (start_window five_images))) ! 2)) \<noteq> 0
   \<and> fst (on_preview (failing_env 2) default_form (start_window five_images)) = Inr ()
   \<and> toasts (snd (on_preview (failing_env 2) default_form (start_window five_images))) =
        [''Error: montage: unable to open image'']"
proof -
  obtain res w' where r: "on_preview (failing_env 2) default_form (start_window five_images) = (res, w')"
    by (cases "on_preview (failing_env 2) default_form (start_window five_images)")
  from failing_preview_run have obs: "length (calls w') = 3"
      "returncode (snd (calls w' ! 2)) = 1"
      "stderr (snd (calls w' ! 2)) = '' montage: unable to open image  ''"
    by (simp_all add: r Let_def)
  have st: "calls (start_window five_images) = []" "toasts (start_window five_images) = []"
    by (simp_all add: start_window_def)
  have k: "2 < length (calls w') - length (calls (start_window five_images))"
    by (simp add: obs st)
  have ix: "length (calls (start_window five_images)) + 2 = 2"
    by (simp only: st list.size add_0)
  have bad: "returncode (snd (calls w' ! (length (calls (start_window five_images)) + 2))) \<noteq> 0"
    unfolding ix obs(2) by simp
  have ex: "take 120 (py_strip '' montage: unable to open image  '') = ''montage: unable to open image''"
    by code_simp
  from abort_at_first_failure [OF disjI1 [OF r] k bad]
  have "res = Inr ()" and "toasts w' = toasts (start_window five_images) @
           [''Error: '' @ take 120 (py_strip (stderr (snd (calls w' !
               (length (calls (start_window five_images)) + 2)))))]"
    by blast+
  then have "res = Inr ()" and "toasts w' = [] @ [''Error: '' @ ''montage: unable to open image'']"
    unfolding ix obs(3) ex st(2) by blast+
  then have "res = Inr ()" and "toasts w' = [''Error: montage: unable to open image'']"
    by simp_all
  with obs(1,2) show ?thesis
    unfolding r by simp
qed

text \<open>
  Claim C8. If the image list is empty or \<^verbatim>\<open>magick\<close> is not found on the search path, a
  preview or generate request only shows the corresponding toast: whatever the form holds
  (even selections for which gathering the settings would raise), the handler returns at
  once with the toast list extended by exactly that toast; no subprocess is started, no save
  dialog is opened, and the image list and the preview are untouched.
\<close>

theorem precondition_failure_immediate:
  assumes "images w = [] \<or> which_magick e = None \<or> which_magick e = Some []"
  shows "on_preview e f w =
           (Inr (), w\<lparr>toasts := toasts w @
              [if images w = [] then ''Add some images first''
               else ''ImageMagick not found - install it first'']\<rparr>)
       \<and> on_generate e f w =
           (Inr (), w\<lparr>toasts := toasts w @
              [if images w = [] then ''Add some images first''
               else ''ImageMagick not found - install it first'']\<rparr>)
       \<and> toasts (snd (on_preview e f w)) = toasts w @
              [if images w = [] then ''Add some images first''
               else ''ImageMagick not found - install it first'']
       \<and> toasts (snd (on_generate e f w)) = toasts w @
              [if images w = [] then ''Add some images first''
               else ''ImageMagick not found - install it first'']
       \<and> calls (snd (on_preview e f w)) = calls w
       \<and> calls (snd (on_generate e f w)) = calls w
       \<and> dialogs (snd (on_preview e f w)) = dialogs w
       \<and> dialogs (snd (on_generate e f w)) = dialogs w
       \<and> preview (snd (on_preview e f w)) = preview w
       \<and> preview (snd (on_generate e f w)) = preview w
       \<and> images (snd (on_preview e f w)) = images w
       \<and> images (snd (on_generate e f w)) = images w"
  using assms
  by (auto simp: on_preview_def on_generate_def check_ready_def add_toast_def)

text \<open>Instances of C8: no images, and images but no \<^verbatim>\<open>magick\<close>.\<close>

theorem precondition_failure_immediate_witness:
  "images (start_window []) = []
   \<and> fst (on_preview ok_env default_form (start_window [])) = Inr ()
   \<and> toasts (snd (on_preview ok_env default_form (start_window []))) = [''Add some images first'']
   \<and> calls (snd (on_preview ok_env default_form (start_window []))) = []
   \<and> which_magick (ok_env \<lparr> which_magick := None \<rparr>) = None
   \<and> fst (on_generate (ok_env \<lparr> which_magick := None \<rparr>) default_form (start_window five_images))
       = Inr ()
   \<and> toasts (snd (on_generate (ok_env \<lparr> which_magick := None \<rparr>) default_form
        (start_window five_images))) = [''ImageMagick not found - install it first'']
   \<and> calls (snd (on_generate (ok_env \<lparr> which_magick := None \<rparr>) default_form
        (start_window five_images))) = []
   \<and> dialogs (snd (on_generate (ok_env \<lparr> which_magick := None \<rparr>) default_form
        (start_window five_images))) = []"
proof -
  have a: "images (start_window []) = []" "toasts (start_window []) = []"
    "calls (start_window []) = []"
    by (simp_all add: start_window_def)
  have b: "which_magick (ok_env \<lparr> which_magick := None \<rparr>) = None" by simp
  have c: "images (start_window five_images) \<noteq> []" "toasts (start_window five_images) = []"
    "calls (start_window five_images) = []" "dialogs (start_window five_images) = []"
    by (simp_all add: start_window_def five_images_def)
  have h1: "images (start_window []) = [] \<or> which_magick ok_env = None
      \<or> which_magick ok_env = Some []"
    using a(1) by simp
  have h2: "images (start_window five_images) = []
      \<or> which_magick (ok_env \<lparr> which_magick := None \<rparr>) = None
      \<or> which_magick (ok_env \<lparr> which_magick := None \<rparr>) = Some []"
    using b by simp
  note p = precondition_failure_immediate [OF h1, of default_form]
  note g = precondition_failure_immediate [OF h2, of default_form]
  from p have "fst (on_preview ok_env default_form (start_window [])) = Inr ()"
    "toasts (snd (on_preview ok_env default_form (start_window []))) = [''Add some images first'']"
    "calls (snd (on_preview ok_env default_form (start_window []))) = []"
    using a by simp_all
  moreover from g have
    "fst (on_generate (ok_env \<lparr> which_magick := None \<rparr>) default_form (start_window five_images))
       = Inr ()"
    "toasts (snd (on_generate (ok_env \<lparr> which_magick := None \<rparr>) default_form
        (start_window five_images))) = [''ImageMagick not found - install it first'']"
    "calls (snd (on_generate (ok_env \<lparr> which_magick := None \<rparr>) default_form
        (start_window five_images))) = []"
    "dialogs (snd (on_generate (ok_env \<lparr> which_magick := None \<rparr>) default_form
        (start_window five_images))) = []"
    using c by simp_all
  ultimately show ?thesis using a(1) b by simp
qed

section \<open>Saving numbered files and previewing\<close>

lemma gather_full_page:
  "gather_settings (default_form \<lparr> layout_row := 0 \<rparr>) None = Inr full_page_settings"
  by code_simp

lemma length_expected_cmds: "length (expected_cmds s out i chunks) = 2 * length chunks"
  by (induction chunks arbitrary: i) simp_all

lemma expected_cmds_nth:
  "k < length chunks \<Longrightarrow>
     expected_cmds s out i chunks ! (2 * k) = cmd1 (chunks ! k) s
     \<and> expected_cmds s out i chunks ! (2 * k + 1) = cmd2 s (out (i + int k))"
proof (induction chunks arbitrary: i k)
  case Nil
  then show ?case by simp
next
  case (Cons chunk rest)
  show ?case
  proof (cases k)
    case 0
    then show ?thesis by simp
  next
    case (Suc j)
    with Cons.prems have "j < length rest" by simp
    from Cons.IH [OF this, of "i + 1"] Suc show ?thesis
      by (simp add: algebra_simps)
  qed
qed

lemma last_cmd2: "last (cmd2 s dest) = dest"
  by (simp add: cmd2_def)

lemma run_ok:
  assumes "succeeds e"
  shows "\<exists>r. run e cmd inp w = (Inr r, w\<lparr>calls := calls w @ [(cmd, r)]\<rparr>)"
  using assms by (simp add: run_def succeeds_def Let_def)

lemma run_montage_ok:
  assumes "succeeds e"
  shows "\<exists>w' new. run_montage e imgs s dest w = (Inr (), w') \<and> calls w' = calls w @ new
           \<and> map fst new = [cmd1 imgs s, cmd2 s dest] \<and> toasts w' = toasts w"
proof -
  from run_ok [OF assms, of "cmd1 imgs s" "[]" w] obtain r1 where
    a: "run e (cmd1 imgs s) [] w = (Inr r1, w\<lparr>calls := calls w @ [(cmd1 imgs s, r1)]\<rparr>)"
    by blast
  let ?w1 = "w\<lparr>calls := calls w @ [(cmd1 imgs s, r1)]\<rparr>"
  from run_ok [OF assms, of "cmd2 s dest" "stdout r1" ?w1] obtain r2 where
    b: "run e (cmd2 s dest) (stdout r1) ?w1 = (Inr r2, ?w1\<lparr>calls := calls ?w1 @ [(cmd2 s dest, r2)]\<rparr>)"
    by blast
  show ?thesis
    by (rule exI [of _ "?w1\<lparr>calls := calls ?w1 @ [(cmd2 s dest, r2)]\<rparr>"],
        rule exI [of _ "[(cmd1 imgs s, r1), (cmd2 s dest, r2)]"])
       (simp add: run_montage_def a b)
qed

lemma with_name_ok:
  "path_name p \<noteq> [] \<Longrightarrow>
     with_name p n = Inr (path_root p @ join_slash (butlast (path_parts p) @ [n]))"
  by (simp add: with_name_def)

lemma save_numbered_out:
  assumes "succeeds e" and "\<And>j. with_name p (stem @ ''-'' @ py_str j @ ext) = Inr (out j)"
  shows "\<exists>w' new. save_numbered e s p stem ext i chunks w = (Inr (), w')
           \<and> calls w' = calls w @ new
           \<and> map fst new = expected_cmds s out i chunks
           \<and> toasts w' = toasts w"
proof (induction chunks arbitrary: i w)
  case Nil
  show ?case by simp
next
  case (Cons chunk rest)
  from run_montage_ok [OF assms(1), of chunk s "out i" w] obtain w1 n1 where
    m: "run_montage e chunk s (out i) w = (Inr (), w1)" "calls w1 = calls w @ n1"
       "map fst n1 = [cmd1 chunk s, cmd2 s (out i)]" "toasts w1 = toasts w"
    by auto
  from Cons.IH [of "i + 1" w1] obtain w2 n2 where
    r: "save_numbered e s p stem ext (i + 1) rest w1 = (Inr (), w2)" "calls w2 = calls w1 @ n2"
       "map fst n2 = expected_cmds s out (i + 1) rest" "toasts w2 = toasts w1"
    by auto
  have wn: "with_name p (stem @ CHR ''-'' # py_str i @ ext) = Inr (out i)"
    using assms(2) [of i] by simp
  show ?case
    by (rule exI [of _ w2], rule exI [of _ "n1 @ n2"])
       (simp add: wn m r)
qed

lemma save_numbered_ok:
  assumes "succeeds e" and "path_name dest \<noteq> []"
  shows "\<exists>w' new. save_numbered e s dest (path_stem dest)
             (if path_suffix dest = [] then ''.jpg'' else path_suffix dest) i chunks w = (Inr (), w')
           \<and> calls w' = calls w @ new
           \<and> map fst new = expected_cmds s (numbered_path dest) i chunks
           \<and> toasts w' = toasts w"
  by (rule save_numbered_out [OF assms(1)])
     (simp add: with_name_ok [OF assms(2)] numbered_path_def)

lemma path_name_split: "path_stem p @ path_suffix p = path_name p"
proof (cases "path_suffix p = []")
  case True
  then show ?thesis by (simp add: path_stem_def)
next
  case False
  let ?name = "path_name p"
  let ?after = "takeWhile (\<lambda>c. c \<noteq> CHR ''.'') (rev ?name)"
  from False have dot: "CHR ''.'' \<in> set ?name" and suf: "path_suffix p = CHR ''.'' # rev ?after"
    by (auto simp: path_suffix_def Let_def split: if_splits)
  from dot have "dropWhile (\<lambda>c. c \<noteq> CHR ''.'') (rev ?name) \<noteq> []"
    by (simp add: dropWhile_eq_Nil_conv) 
  then obtain tl' where dw: "dropWhile (\<lambda>c. c \<noteq> CHR ''.'') (rev ?name) = CHR ''.'' # tl'"
    using hd_dropWhile [of "\<lambda>c. c \<noteq> CHR ''.''" "rev ?name"]
    by (cases "dropWhile (\<lambda>c. c \<noteq> CHR ''.'') (rev ?name)") auto
  have "rev ?name = ?after @ CHR ''.'' # tl'"
    using takeWhile_dropWhile_id [of "\<lambda>c. c \<noteq> CHR ''.''" "rev ?name"] dw by simp
  then have "rev (rev ?name) = rev (?after @ CHR ''.'' # tl')" by simp
  then have name: "?name = rev tl' @ CHR ''.'' # rev ?after" by simp
  have "path_stem p = take (length ?name - length (path_suffix p)) (rev tl' @ CHR ''.'' # rev ?after)"
    unfolding path_stem_def using name by simp
  also have "length ?name - length (path_suffix p) = length (rev tl')"
    unfolding suf by (subst name) simp
  finally have "path_stem p = rev tl'" by simp
  with suf name show ?thesis by simp
qed

text \<open>
  Claim C9, as the code has it. Saving without PDF when chunking gives more than one chunk,
  to a destination that has a file name, in a world where every subprocess succeeds: the
  request starts exactly two subprocesses per chunk, in chunk order, the compose command on
  the \<open>k\<close>-th chunk followed by the fit-to-canvas command whose output file is the numbered
  sibling \<open>k + 1\<close> of the destination; that sibling has \<^verbatim>\<open>-i\<close> between the stem and the
  extension of the destination's name, the extension being \<^verbatim>\<open>.jpg\<close> when the name has none.
  One toast reports the number of files.
\<close>

theorem numbered_output_files:
  assumes "\<not> pdf s" and "chunk_images (images w) s = Inr chunks" and "1 < length chunks"
    and "path_name dest \<noteq> []" and "succeeds e"
  shows "\<exists>w' new. on_save_ready e (Some dest) s w = (Inr (), w')
     \<and> calls w' = calls w @ new
     \<and> length new = 2 * length chunks
     \<and> (\<forall>k < length chunks.
           fst (new ! (2 * k)) = cmd1 (chunks ! k) s
         \<and> fst (new ! (2 * k + 1)) = cmd2 s (numbered_path dest (1 + int k))
         \<and> last (fst (new ! (2 * k + 1))) = numbered_path dest (1 + int k))
     \<and> toasts w' = toasts w @ [''Saved '' @ py_str (int (length chunks)) @ '' files'']
     \<and> path_stem dest @ path_suffix dest = path_name dest"
proof -
  let ?ext = "if path_suffix dest = [] then ''.jpg'' else path_suffix dest"
  from save_numbered_ok [OF assms(5,4), of s 1 chunks w] obtain w1 new where
    sn: "save_numbered e s dest (path_stem dest) ?ext 1 chunks w = (Inr (), w1)"
        "calls w1 = calls w @ new"
        "map fst new = expected_cmds s (numbered_path dest) 1 chunks"
        "toasts w1 = toasts w"
    by auto
  let ?w' = "close_preview (add_toast (''Saved '' @ py_str (int (length chunks)) @ '' files'') w1)"
  have r: "on_save_ready e (Some dest) s w = (Inr (), ?w')"
    using assms(1,2,3) sn(1) by (simp add: on_save_ready_def save_body_def Let_def)
  have c: "calls ?w' = calls w @ new"
    using sn(2) by (simp add: close_preview_def add_toast_def)
  have t: "toasts ?w' = toasts w @ [''Saved '' @ py_str (int (length chunks)) @ '' files'']"
    using sn(4) by (simp add: close_preview_def add_toast_def)
  have len: "length new = 2 * length chunks"
    using arg_cong [OF sn(3), of length] by (simp add: length_expected_cmds)
  have el: "fst (new ! (2 * k)) = cmd1 (chunks ! k) s
         \<and> fst (new ! (2 * k + 1)) = cmd2 s (numbered_path dest (1 + int k))
         \<and> last (fst (new ! (2 * k + 1))) = numbered_path dest (1 + int k)"
    if "k < length chunks" for k
  proof -
    from that len have i: "2 * k < length new" "2 * k + 1 < length new" by simp_all
    have "fst (new ! (2 * k)) = map fst new ! (2 * k)"
      and "fst (new ! (2 * k + 1)) = map fst new ! (2 * k + 1)"
      using i by (simp_all only: nth_map)
    with expected_cmds_nth [OF that, of s "numbered_path dest" 1] sn(3)
    show ?thesis by (simp add: last_cmd2)
  qed
  from r c len el t path_name_split [of dest] show ?thesis by blast
qed

lemma succeeds_ok_env: "succeeds ok_env"
  by (simp add: succeeds_def ok_env_def)

text \<open>An instance of C9: three images, one per page, saved to \<^verbatim>\<open>/home/u/grid.jpg\<close>.\<close>

theorem numbered_output_files_witness:
  "\<not> pdf full_page_settings
   \<and> chunk_images (images (start_window [''a.jpg'', ''b.jpg'', ''c.jpg''])) full_page_settings
       = Inr [[''a.jpg''], [''b.jpg''], [''c.jpg'']]
   \<and> path_name ''/home/u/grid.jpg'' \<noteq> [] \<and> succeeds ok_env
   \<and> (\<exists>w'. on_save_ready ok_env (Some ''/home/u/grid.jpg'') full_page_settings
              (start_window [''a.jpg'', ''b.jpg'', ''c.jpg'']) = (Inr (), w')
          \<and> length (calls w') = 6
          \<and> last (fst (calls w' ! 1)) = ''/home/u/grid-1.jpg''
          \<and> last (fst (calls w' ! 3)) = ''/home/u/grid-2.jpg''
          \<and> last (fst (calls w' ! 5)) = ''/home/u/grid-3.jpg''
          \<and> toasts w' = [''Saved 3 files''])"
proof -
  let ?w = "start_window [''a.jpg'', ''b.jpg'', ''c.jpg'']"
  let ?chunks = "[[''a.jpg''], [''b.jpg''], [''c.jpg'']]"
  have p: "\<not> pdf full_page_settings" by (simp add: full_page_settings_def)
  have ch: "chunk_images (images ?w) full_page_settings = Inr ?chunks" by code_simp
  have l: "1 < length ?chunks" by simp
  have n: "path_name ''/home/u/grid.jpg'' \<noteq> []" by code_simp
  have np: "numbered_path ''/home/u/grid.jpg'' 1 = ''/home/u/grid-1.jpg''"
    "numbered_path ''/home/u/grid.jpg'' 2 = ''/home/u/grid-2.jpg''"
    "numbered_path ''/home/u/grid.jpg'' 3 = ''/home/u/grid-3.jpg''"
    by code_simp+
  have s3: "''Saved '' @ py_str (int (length ?chunks)) @ '' files'' = ''Saved 3 files''"
    by code_simp
  have st: "calls ?w = []" "toasts ?w = []" by (simp_all add: start_window_def)
  from numbered_output_files [OF p ch l n succeeds_ok_env] obtain w' new where
    r: "on_save_ready ok_env (Some ''/home/u/grid.jpg'') full_page_settings ?w = (Inr (), w')"
       "calls w' = calls ?w @ new" "length new = 2 * length ?chunks"
       "\<forall>k < length ?chunks. last (fst (new ! (2 * k + 1))) = numbered_path ''/home/u/grid.jpg'' (1 + int k)"
       "toasts w' = toasts ?w @ [''Saved '' @ py_str (int (length ?chunks)) @ '' files'']"
    by blast
  have k: "(0::nat) < length ?chunks" "(1::nat) < length ?chunks" "(2::nat) < length ?chunks"
    by simp_all
  have "last (fst (new ! 1)) = ''/home/u/grid-1.jpg''"
    "last (fst (new ! 3)) = ''/home/u/grid-2.jpg''" "last (fst (new ! 5)) = ''/home/u/grid-3.jpg''"
    using r(4) [rule_format, OF k(1)] r(4) [rule_format, OF k(2)] r(4) [rule_format, OF k(3)]
    by (simp_all add: np)
  moreover have "calls w' = new" using r(2) st by simp
  moreover have "toasts w' = [''Saved 3 files'']" using r(5) unfolding s3 st by simp
  moreover have "length new = 6" using r(3) by simp
  ultimately show ?thesis using p ch n succeeds_ok_env r(1) by simp
qed

text \<open>
  Claim C9 as stated fails for a destination without an extension: the stem is \<^verbatim>\<open>grid\<close>, the
  extension is empty, and the files written are \<^verbatim>\<open>grid-1.jpg\<close> and \<^verbatim>\<open>grid-2.jpg\<close>, not
  \<^verbatim>\<open>grid-1\<close> and \<^verbatim>\<open>grid-2\<close>.
\<close>

theorem missing_extension_counterexample:
  "map (last \<circ> fst) (calls (snd (on_save_ready ok_env (Some ''/home/u/grid'') full_page_settings
        (start_window [''a.jpg'', ''b.jpg'']))))
     = [''png:-'', ''/home/u/grid-1.jpg'', ''png:-'', ''/home/u/grid-2.jpg'']
   \<and> path_stem ''/home/u/grid'' = ''grid'' \<and> path_suffix ''/home/u/grid'' = []
   \<and> chunk_images (images (start_window [''a.jpg'', ''b.jpg''])) full_page_settings
       = Inr [[''a.jpg''], [''b.jpg'']]"
  by code_simp

lemma gather_preview: "gather_settings default_form (Some 72) = Inr preview_settings"
  by code_simp

lemma gather_ignores_dpi_row:
  "gather_settings (f\<lparr>dpi_row := d\<rparr>) (Some 72) = gather_settings f (Some 72)"
  by (simp add: gather_settings_def select_dpi_def)

lemma run_montage_cmds:
  assumes "run_montage e imgs s dest w = (r, w')"
  shows "\<exists>new. calls w' = calls w @ new \<and> (\<forall>c \<in> set new. page_cmd s (fst c))"
proof -
  have c1: "page_cmd s (cmd1 imgs s)" and c2: "page_cmd s (cmd2 s dest)"
    by (auto simp: page_cmd_def)
  from assms c1 c2 show ?thesis
    by (auto simp: run_montage_def run_def Let_def split: if_splits)
qed

lemma render_pages_cmds:
  "render_pages e s pat i chunks paths w = (r, w') \<Longrightarrow>
     \<exists>new. calls w' = calls w @ new \<and> (\<forall>c \<in> set new. page_cmd s (fst c))"
proof (induction chunks arbitrary: i paths w)
  case Nil
  then show ?case by simp
next
  case (Cons chunk rest)
  obtain r1 w1 where m: "run_montage e chunk s (pat (i + 1)) w = (r1, w1)"
    by (cases "run_montage e chunk s (pat (i + 1)) w")
  from run_montage_cmds [OF m] obtain n1 where
    n1: "calls w1 = calls w @ n1" "\<forall>c \<in> set n1. page_cmd s (fst c)"
    by blast
  show ?case
  proof (cases r1)
    case (Inl err)
    with Cons.prems m have "w' = w1" by simp
    with n1 show ?thesis by blast
  next
    case (Inr u)
    with Cons.prems m have "render_pages e s pat (i + 1) rest (paths @ [pat (i + 1)]) w1 = (r, w')"
      by simp
    from Cons.IH [OF this] obtain n2 where
      n2: "calls w' = calls w1 @ n2" "\<forall>c \<in> set n2. page_cmd s (fst c)"
      by blast
    from n1 n2 have "calls w' = calls w @ (n1 @ n2)" "\<forall>c \<in> set (n1 @ n2). page_cmd s (fst c)"
      by auto
    then show ?thesis by blast
  qed
qed

lemma run_all_pages_cmds:
  assumes "run_all_pages e s pat w = (r, w')"
  shows "\<exists>new. calls w' = calls w @ new \<and> (\<forall>c \<in> set new. page_cmd s (fst c))"
proof (cases "chunk_images (images w) s")
  case (Inl err)
  with assms have "w' = w" by (simp add: run_all_pages_def)
  then show ?thesis by simp
next
  case (Inr chunks)
  with assms have "render_pages e s pat 0 chunks [] w = (r, w')" by (simp add: run_all_pages_def)
  then show ?thesis by (rule render_pages_cmds)
qed

lemma on_preview_cmds:
  assumes "gather_settings f (Some 72) = Inr s"
  shows "\<forall>c \<in> set (drop (length (calls w)) (calls (snd (on_preview e f w)))). page_cmd s (fst c)"
proof (cases "check_ready e w")
  case (Pair ready w0)
  show ?thesis
  proof (cases ready)
    case False
    with Pair have "calls (snd (on_preview e f w)) = calls w"
      by (auto simp: on_preview_def check_ready_def add_toast_def split: if_splits)
    then show ?thesis by simp
  next
    case True
    with Pair have w0: "w0 = w" by (auto simp: check_ready_def split: if_splits)
    let ?pat = "page_pattern (mkdtemp e ''photogrid_'')"
    obtain r1 w1 where a: "run_all_pages e s ?pat w = (r1, w1)"
      by (cases "run_all_pages e s ?pat w")
    from run_all_pages_cmds [OF a] obtain new where
      n: "calls w1 = calls w @ new" "\<forall>c \<in> set new. page_cmd s (fst c)"
      by blast
    have "calls (snd (on_preview e f w)) = calls w1"
      using Pair True w0 assms a
      by (auto simp: on_preview_def Let_def show_preview_def add_toast_def
          split: sum.splits py_error.splits if_splits)
    with n show ?thesis by simp
  qed
qed

lemma render_pages_ok:
  assumes "succeeds e"
  shows "\<exists>pages w' new. render_pages e s pat i chunks paths w = (Inr pages, w')
           \<and> calls w' = calls w @ new
           \<and> map fst new = expected_cmds s pat (i + 1) chunks"
proof (induction chunks arbitrary: i paths w)
  case Nil
  show ?case by simp
next
  case (Cons chunk rest)
  from run_montage_ok [OF assms, of chunk s "pat (i + 1)" w] obtain w1 n1 where
    m: "run_montage e chunk s (pat (i + 1)) w = (Inr (), w1)" "calls w1 = calls w @ n1"
       "map fst n1 = [cmd1 chunk s, cmd2 s (pat (i + 1))]"
    by auto
  from Cons.IH [of "i + 1" "paths @ [pat (i + 1)]" w1] obtain pages w2 n2 where
    r: "render_pages e s pat (i + 1) rest (paths @ [pat (i + 1)]) w1 = (Inr pages, w2)"
       "calls w2 = calls w1 @ n2" "map fst n2 = expected_cmds s pat (i + 1 + 1) rest"
    by auto
  show ?case
    by (rule exI [of _ pages], rule exI [of _ w2], rule exI [of _ "n1 @ n2"])
       (simp add: m r)
qed

lemma on_preview_ok:
  assumes "images w \<noteq> []" and "which_magick e = Some m" and "m \<noteq> []" and "succeeds e"
    and "gather_settings f (Some 72) = Inr s" and "chunk_images (images w) s = Inr chunks"
  shows "map fst (drop (length (calls w)) (calls (snd (on_preview e f w)))) =
           expected_cmds s (page_pattern (mkdtemp e ''photogrid_'')) 1 chunks"
proof -
  let ?pat = "page_pattern (mkdtemp e ''photogrid_'')"
  from render_pages_ok [OF assms(4), of s ?pat 0 chunks "[]" w] obtain pages w1 new where
    r: "render_pages e s ?pat 0 chunks [] w = (Inr pages, w1)" "calls w1 = calls w @ new"
       "map fst new = expected_cmds s ?pat 1 chunks"
    by auto
  have ready: "check_ready e w = (True, w)"
    using assms(1,2,3) by (simp add: check_ready_def)
  have "on_preview e f w = show_preview pages w1"
    using ready assms(5,6) r(1) by (simp add: on_preview_def run_all_pages_def Let_def)
  then have "calls (snd (on_preview e f w)) = calls w1"
    by (simp add: show_preview_def)
  with r(2,3) show ?thesis by simp
qed

lemma cmd2_density:
  assumes "dpi s = 72"
  shows "cmd2 s dest =
     [''magick'', ''-'', ''-gravity'', ''center'', ''-background'', bg s,
      ''-extent'', size_spec (canvas_w s) (canvas_h s),
      ''-units'', ''PixelsPerInch'', ''-density'', ''72'', dest]"
proof -
  have "py_str 72 = ''72''" by code_simp
  with assms show ?thesis by (simp add: cmd2_def)
qed

text \<open>
  Claim C10. A preview gathers its settings with the DPI override 72: the selected DPI option
  has no influence on the gathered settings nor on anything the preview does; the gathered
  DPI is 72, the canvas is the paper size times 72 (truncated, swapped for landscape), the
  cells are computed from that canvas, and the fit-to-canvas command carries the density 72.
  Every subprocess that the preview starts is a page command built from these settings, and
  when the request is ready and every subprocess succeeds the subprocesses started are
  exactly the page commands of the chunks, in order.
\<close>

theorem preview_dpi_forced:
  "gather_settings (f\<lparr>dpi_row := d\<rparr>) (Some 72) = gather_settings f (Some 72)
   \<and> on_preview e (f\<lparr>dpi_row := d\<rparr>) w = on_preview e f w
   \<and> (gather_settings f (Some 72) = Inr s \<longrightarrow>
        dpi s = 72
      \<and> (canvas_w s, canvas_h s) =
           (let (wi, hi) = paper_inches ! paper_row f;
                (wi', hi') = (if orient_row f = 1 then (hi, wi) else (wi, hi))
            in (\<lfloor>wi' * 72\<rfloor>, \<lfloor>hi' * 72\<rfloor>))
      \<and> (tile s, cell_w s, cell_h s) =
           cell_size (canvas_w s) (canvas_h s) (margin s) (border s) (spacing s)
             (fst (snd (LAYOUTS ! layout_row f))) (snd (snd (LAYOUTS ! layout_row f)))
      \<and> cmd2 s dest =
           [''magick'', ''-'', ''-gravity'', ''center'', ''-background'', bg s,
            ''-extent'', size_spec (canvas_w s) (canvas_h s),
            ''-units'', ''PixelsPerInch'', ''-density'', ''72'', dest]
      \<and> (\<forall>c \<in> set (drop (length (calls w)) (calls (snd (on_preview e f w)))).
            (\<exists>imgs. fst c = cmd1 imgs s) \<or> (\<exists>dest. fst c = cmd2 s dest))
      \<and> (images w \<noteq> [] \<and> which_magick e = Some m \<and> m \<noteq> [] \<and> succeeds e
           \<and> chunk_images (images w) s = Inr chunks \<longrightarrow>
          map fst (drop (length (calls w)) (calls (snd (on_preview e f w)))) =
            expected_cmds s (page_pattern (mkdtemp e ''photogrid_'')) 1 chunks))"
proof -
  have a: "gather_settings (f\<lparr>dpi_row := d\<rparr>) (Some 72) = gather_settings f (Some 72)"
    by (rule gather_ignores_dpi_row)
  have b: "on_preview e (f\<lparr>dpi_row := d\<rparr>) w = on_preview e f w"
    unfolding on_preview_def a by (rule refl)
  have c: "dpi s = 72
      \<and> (canvas_w s, canvas_h s) =
           (let (wi, hi) = paper_inches ! paper_row f;
                (wi', hi') = (if orient_row f = 1 then (hi, wi) else (wi, hi))
            in (\<lfloor>wi' * 72\<rfloor>, \<lfloor>hi' * 72\<rfloor>))
      \<and> (tile s, cell_w s, cell_h s) =
           cell_size (canvas_w s) (canvas_h s) (margin s) (border s) (spacing s)
             (fst (snd (LAYOUTS ! layout_row f))) (snd (snd (LAYOUTS ! layout_row f)))
      \<and> cmd2 s dest =
           [''magick'', ''-'', ''-gravity'', ''center'', ''-background'', bg s,
            ''-extent'', size_spec (canvas_w s) (canvas_h s),
            ''-units'', ''PixelsPerInch'', ''-density'', ''72'', dest]
      \<and> (\<forall>c \<in> set (drop (length (calls w)) (calls (snd (on_preview e f w)))).
            (\<exists>imgs. fst c = cmd1 imgs s) \<or> (\<exists>dest. fst c = cmd2 s dest))
      \<and> (images w \<noteq> [] \<and> which_magick e = Some m \<and> m \<noteq> [] \<and> succeeds e
           \<and> chunk_images (images w) s = Inr chunks \<longrightarrow>
          map fst (drop (length (calls w)) (calls (snd (on_preview e f w)))) =
            expected_cmds s (page_pattern (mkdtemp e ''photogrid_'')) 1 chunks)"
    if g: "gather_settings f (Some 72) = Inr s"
  proof -
    note gi = gather_settings_Inr [OF g]
    from gi have d72: "dpi s = 72" by (simp add: select_dpi_def)
    from gi have p: "paper_row f < 9" by simp
    have "(72::int) \<in> {150, 300, 600, 72}" by simp
    from canvas_px [OF p this] gi
    have cv: "(canvas_w s, canvas_h s) =
           (let (wi, hi) = paper_inches ! paper_row f;
                (wi', hi') = (if orient_row f = 1 then (hi, wi) else (wi, hi))
            in (\<lfloor>wi' * 72\<rfloor>, \<lfloor>hi' * 72\<rfloor>))"
      by (simp add: d72 paper_dims_def case_prod_beta Let_def)
    from gi have cs: "(tile s, cell_w s, cell_h s) =
           cell_size (canvas_w s) (canvas_h s) (margin s) (border s) (spacing s)
             (fst (snd (LAYOUTS ! layout_row f))) (snd (snd (LAYOUTS ! layout_row f)))"
      by blast
    from on_preview_cmds [OF g, of w e] have pc:
      "\<forall>c \<in> set (drop (length (calls w)) (calls (snd (on_preview e f w)))).
            (\<exists>imgs. fst c = cmd1 imgs s) \<or> (\<exists>dest. fst c = cmd2 s dest)"
      by (simp add: page_cmd_def)
    have ok: "images w \<noteq> [] \<and> which_magick e = Some m \<and> m \<noteq> [] \<and> succeeds e
           \<and> chunk_images (images w) s = Inr chunks \<longrightarrow>
          map fst (drop (length (calls w)) (calls (snd (on_preview e f w)))) =
            expected_cmds s (page_pattern (mkdtemp e ''photogrid_'')) 1 chunks"
      using on_preview_ok [of w e m f s chunks] g by blast
    from d72 cv cs cmd2_density [OF d72, of dest] pc ok show ?thesis by blast
  qed
  from a b c show ?thesis by blast
qed

text \<open>
  An instance of C10: the default form (300 DPI selected, or 600) previews five images on a
  2 x 2 grid with a canvas of 595 by 841 pixels.
\<close>

theorem preview_dpi_forced_witness:
  "gather_settings default_form (Some 72) = Inr preview_settings
   \<and> dpi_row default_form = 1
   \<and> images (start_window five_images) \<noteq> []
   \<and> which_magick ok_env = Some ''/usr/bin/magick'' \<and> succeeds ok_env
   \<and> chunk_images (images (start_window five_images)) preview_settings
       = Inr [[''a.jpg'', ''b.jpg'', ''c.jpg'', ''d.jpg''], [''e.jpg'']]
   \<and> gather_settings (default_form\<lparr>dpi_row := 2\<rparr>) (Some 72) = Inr preview_settings
   \<and> on_preview ok_env (default_form\<lparr>dpi_row := 2\<rparr>) (start_window five_images)
       = on_preview ok_env default_form (start_window five_images)
   \<and> dpi preview_settings = 72
   \<and> (canvas_w preview_settings, canvas_h preview_settings) = (595, 841)
   \<and> map fst (calls (snd (on_preview ok_env default_form (start_window five_images)))) =
        expected_cmds preview_settings (page_pattern (mkdtemp ok_env ''photogrid_'')) 1
          [[''a.jpg'', ''b.jpg'', ''c.jpg'', ''d.jpg''], [''e.jpg'']]"
proof -
  let ?w = "start_window five_images"
  let ?chunks = "[[''a.jpg'', ''b.jpg'', ''c.jpg'', ''d.jpg''], [''e.jpg'']]"
  have i: "images ?w \<noteq> []" by (simp add: start_window_def five_images_def)
  have m: "which_magick ok_env = Some ''/usr/bin/magick''" by (simp add: ok_env_def)
  have ne: "''/usr/bin/magick'' \<noteq> []" by simp
  have ch: "chunk_images (images ?w) preview_settings = Inr ?chunks" by code_simp
  have st: "calls ?w = []" by (simp add: start_window_def)
  note t = preview_dpi_forced [where f = default_form and d = 2 and e = ok_env
      and w = ?w and s = preview_settings and m = "''/usr/bin/magick''" and chunks = ?chunks
      and dest = "[]"]
  from t gather_preview have "dpi preview_settings = 72" by blast
  moreover from t gather_preview i m ne succeeds_ok_env ch have
    "map fst (drop (length (calls ?w)) (calls (snd (on_preview ok_env default_form ?w)))) =
        expected_cmds preview_settings (page_pattern (mkdtemp ok_env ''photogrid_'')) 1 ?chunks"
    by blast
  moreover have "(canvas_w preview_settings, canvas_h preview_settings) = (595, 841)"
    by (simp add: preview_settings_def)
  moreover have "dpi_row default_form = 1" by (simp add: default_form_def)
  moreover from t have "gather_settings (default_form\<lparr>dpi_row := 2\<rparr>) (Some 72)
      = gather_settings default_form (Some 72)"
    and "on_preview ok_env (default_form\<lparr>dpi_row := 2\<rparr>) ?w = on_preview ok_env default_form ?w"
    by blast+
  ultimately show ?thesis using gather_preview i m succeeds_ok_env ch st by simp
qed

end
